theory Spec2Isabelle
  imports Main
begin

section \<open>Strings\<close>

text \<open>
  JavaScript strings are modelled as \<open>string\<close> (lists of 8-bit characters): the model
  covers the strings whose code units are below 256 (ISO Latin-1), which contains every
  character the program's literals and patterns mention.
\<close>

text \<open>\<open>String.prototype.toLowerCase\<close> on Latin-1: A-Z and the accented capitals
  0xC0-0xDE (0xD7, the multiplication sign, apart) move up by 32.\<close>

definition toLowerCaseChar :: "char \<Rightarrow> char" where
  "toLowerCaseChar c =
     (let n = (of_char c :: nat) in
      if (65 \<le> n \<and> n \<le> 90) \<or> (192 \<le> n \<and> n \<le> 222 \<and> n \<noteq> 215)
      then char_of (n + 32) else c)"

definition toLowerCase :: "string \<Rightarrow> string" where
  "toLowerCase s = map toLowerCaseChar s"

text \<open>The line terminators (which \<open>.\<close> of a regular expression refuses) and the white
  space (which \<open>trim\<close> removes and \<open>\s\<close> accepts) among the first 256 code units.\<close>

definition isLineTerminator :: "char \<Rightarrow> bool" where
  "isLineTerminator c = (c = CHR 0x0A \<or> c = CHR 0x0D)"

definition isWhiteSpace :: "char \<Rightarrow> bool" where
  "isWhiteSpace c =
     (c = CHR 0x09 \<or> c = CHR 0x0A \<or> c = CHR 0x0B \<or> c = CHR 0x0C \<or> c = CHR 0x0D
      \<or> c = CHR 0x20 \<or> c = CHR 0xA0)"

definition trim :: "string \<Rightarrow> string" where
  "trim s = rev (dropWhile isWhiteSpace (rev (dropWhile isWhiteSpace s)))"

section \<open>The regular expressions of the program\<close>

text \<open>
  Every pattern of the program is a sequence of literals, greedy capturing groups
  \<open>(x+)\<close> and greedy stars \<open>x*\<close> over one of two character classes: \<open>.\<close> and
  \<open>[.|\s]\<close>. The matcher below is the backtracking matcher of the language restricted
  to these forms: a greedy quantifier first takes the longest run and gives characters
  back one at a time until the rest of the pattern matches; an unanchored pattern is tried
  at each start position from the left.
\<close>

datatype atom = Dot | DotBarSpace

datatype item = Lit string | PlusGroup atom | Star atom

fun atomMatches :: "atom \<Rightarrow> char \<Rightarrow> bool" where
  "atomMatches Dot c = (\<not> isLineTerminator c)"
| "atomMatches DotBarSpace c = (c = CHR ''.'' \<or> c = CHR ''|'' \<or> isWhiteSpace c)"

text \<open>\<open>matchHere p s\<close> matches \<open>p\<close> at the start of \<open>s\<close> and returns the number of
  characters consumed with the captured groups; \<open>backtrack cap lo r s n\<close> tries to give the
  quantified atom \<open>n\<close>, \<open>n - 1\<close>, ... down to \<open>lo\<close> characters.\<close>

function matchHere :: "item list \<Rightarrow> string \<Rightarrow> (nat \<times> string list) option"
  and backtrack :: "bool \<Rightarrow> nat \<Rightarrow> item list \<Rightarrow> string \<Rightarrow> nat \<Rightarrow> (nat \<times> string list) option"
where
  "matchHere [] s = Some (0, [])"
| "matchHere (Lit l # r) s =
     (if take (length l) s = l
      then (case matchHere r (drop (length l) s) of
              Some (m, caps) \<Rightarrow> Some (length l + m, caps)
            | None \<Rightarrow> None)
      else None)"
| "matchHere (PlusGroup a # r) s = backtrack True 1 r s (length (takeWhile (atomMatches a) s))"
| "matchHere (Star a # r) s = backtrack False 0 r s (length (takeWhile (atomMatches a) s))"
| "backtrack cap lo r s n =
     (if n < lo then None
      else case matchHere r (drop n s) of
             Some (m, caps) \<Rightarrow> Some (n + m, if cap then take n s # caps else caps)
           | None \<Rightarrow> (if n = 0 then None else backtrack cap lo r s (n - 1)))"
  by pat_completeness auto
termination
  by (relation "measures
        [\<lambda>x. case x of Inl (p, s) \<Rightarrow> 2 * length p | Inr (cap, lo, r, s, n) \<Rightarrow> 2 * length r + 1,
         \<lambda>x. case x of Inl (p, s) \<Rightarrow> 0 | Inr (cap, lo, r, s, n) \<Rightarrow> n]") auto

text \<open>\<open>str_match p s\<close> is \<open>s.match(p)\<close> for a pattern without the global flag: \<open>None\<close> for
  \<open>null\<close>, otherwise the array whose element 0 is the matched text and whose elements
  1, 2, ... are the groups.\<close>

fun str_match :: "item list \<Rightarrow> string \<Rightarrow> string list option" where
  "str_match p [] =
     (case matchHere p [] of Some (n, caps) \<Rightarrow> Some (take n [] # caps) | None \<Rightarrow> None)"
| "str_match p (c # s) =
     (case matchHere p (c # s) of
        Some (n, caps) \<Rightarrow> Some (take n (c # s) # caps)
      | None \<Rightarrow> str_match p s)"

definition sShowRegExp :: "item list" where
  "sShowRegExp = [PlusGroup Dot, Lit '''s show'']"

definition theRadioProgrammeRegExp :: "item list" where
  "theRadioProgrammeRegExp = [Lit ''the '', PlusGroup Dot, Lit '' radio programme'']"

definition dateRegExp :: "item list" where
  "dateRegExp = [PlusGroup Dot, Lit '':'', Star DotBarSpace]"

definition regExp1 :: "item list" where
  "regExp1 = [Lit ''WFMU MP3 Archive: '', PlusGroup Dot, Lit '' from '', PlusGroup Dot]"

definition regExp2 :: "item list" where
  "regExp2 = [PlusGroup Dot, Lit '' with '', PlusGroup Dot]"

section \<open>Title extraction of the XML feed\<close>

text \<open>The loop \<open>for (;;) { ... }\<close> of \<open>refreshArchiveListFromXml\<close>, as it is written: it
  may a priori run forever, which is the value \<open>None\<close>.\<close>

partial_function (option) coHostLoop :: "string \<Rightarrow> string option" where
  "coHostLoop showTitle =
     (case str_match regExp2 showTitle of
        None \<Rightarrow> Some showTitle
      | Some matchParts2 \<Rightarrow>
          if length matchParts2 > 2 then coHostLoop (matchParts2 ! 1) else Some showTitle)"

section \<open>Properties of the matcher\<close>

lemma backtrack_Some:
  "backtrack cap lo r s n = Some (k, caps) \<Longrightarrow>
   \<exists>j m caps'. lo \<le> j \<and> j \<le> n \<and> matchHere r (drop j s) = Some (m, caps') \<and> k = j + m
      \<and> caps = (if cap then take j s # caps' else caps')
      \<and> (\<forall>i. j < i \<and> i \<le> n \<longrightarrow> matchHere r (drop i s) = None)"
proof (induction n)
  case 0
  then show ?case
    by (auto split: if_splits option.splits)
next
  case (Suc n)
  show ?case
  proof (cases "matchHere r (drop (Suc n) s)")
    case None
    with Suc.prems have lo: "\<not> Suc n < lo" and b: "backtrack cap lo r s n = Some (k, caps)"
      by (auto split: if_splits)
    from Suc.IH [OF b] obtain j m caps' where
      j: "lo \<le> j" "j \<le> n" "matchHere r (drop j s) = Some (m, caps')" "k = j + m"
         "caps = (if cap then take j s # caps' else caps')"
         "\<forall>i. j < i \<and> i \<le> n \<longrightarrow> matchHere r (drop i s) = None"
      by blast
    have "\<forall>i. j < i \<and> i \<le> Suc n \<longrightarrow> matchHere r (drop i s) = None"
      using j(6) None by (auto simp: le_Suc_eq)
    with j show ?thesis
      by (intro exI [of _ j] exI [of _ m] exI [of _ caps']) auto
  next
    case (Some res)
    obtain m caps' where res: "res = (m, caps')"
      by (cases res)
    with Some Suc.prems have "lo \<le> Suc n" "k = Suc n + m"
      "caps = (if cap then take (Suc n) s # caps' else caps')"
      by (auto split: if_splits)
    with Some res show ?thesis
      by (intro exI [of _ "Suc n"] exI [of _ m] exI [of _ caps']) auto
  qed
qed

lemma matchHere_consumed: "matchHere p s = Some (k, caps) \<Longrightarrow> k \<le> length s"
  and backtrack_consumed: "backtrack cap lo p s n = Some (k, caps) \<Longrightarrow> n \<le> length s \<Longrightarrow> k \<le> length s"
proof (induction p s and cap lo p s n arbitrary: k caps and k caps rule: matchHere_backtrack.induct)
  case (1 s)
  then show ?case by simp
next
  case (2 l r s)
  from "2.prems" have eq: "take (length l) s = l"
    by (simp split: if_splits)
  then have "length (take (length l) s) = length l"
    by (rule arg_cong)
  then have len: "length l \<le> length s"
    by simp
  from "2.prems" eq obtain m where m: "matchHere r (drop (length l) s) = Some (m, caps)" "k = length l + m"
    by (auto split: option.splits)
  from "2.IH" [OF eq m(1)] have "m \<le> length s - length l"
    by simp
  with m(2) len show ?case
    by simp
next
  case (3 a r s)
  have "length (takeWhile (atomMatches a) s) \<le> length s"
    by (rule length_takeWhile_le)
  with 3 show ?case by simp
next
  case (4 a r s)
  have "length (takeWhile (atomMatches a) s) \<le> length s"
    by (rule length_takeWhile_le)
  with 4 show ?case by simp
next
  case (5 cap lo r s n)
  show ?case
  proof (cases "matchHere r (drop n s)")
    case None
    with 5 show ?thesis
      by (auto split: if_splits)
  next
    case (Some res)
    obtain m caps' where res: "res = (m, caps')"
      by (cases res)
    with Some "5.prems" have lo: "\<not> n < lo" and k: "k = n + m"
      by (auto split: if_splits)
    from "5.IH"(1) [OF lo] Some res have "m \<le> length (drop n s)"
      by simp
    with k "5.prems"(2) show ?thesis by simp
  qed
qed

lemma str_match_Some:
  "str_match p s = Some parts \<Longrightarrow>
   \<exists>i n caps. i \<le> length s \<and> matchHere p (drop i s) = Some (n, caps)
      \<and> parts = take n (drop i s) # caps
      \<and> (\<forall>j < i. matchHere p (drop j s) = None)"
proof (induction s)
  case Nil
  then show ?case
    by (auto split: option.splits)
next
  case (Cons c s)
  show ?case
  proof (cases "matchHere p (c # s)")
    case None
    with Cons.prems have "str_match p s = Some parts"
      by simp
    from Cons.IH [OF this] obtain i n caps where
      i: "i \<le> length s" "matchHere p (drop i s) = Some (n, caps)"
         "parts = take n (drop i s) # caps" "\<forall>j < i. matchHere p (drop j s) = None"
      by blast
    have "\<forall>j < Suc i. matchHere p (drop j (c # s)) = None"
      using i(4) None by (auto simp: less_Suc_eq_0_disj)
    with i show ?thesis
      by (intro exI [of _ "Suc i"] exI [of _ n] exI [of _ caps]) auto
  next
    case (Some res)
    obtain n caps where "res = (n, caps)"
      by (cases res)
    with Some Cons.prems show ?thesis
      by (intro exI [of _ 0] exI [of _ n] exI [of _ caps]) auto
  qed
qed

text \<open>A pattern that starts with a group \<open>(.+)\<close> followed by a non-empty literal captures,
  as its first group, a string strictly shorter than the subject.\<close>

lemma group_then_literal_shorter:
  assumes "str_match (PlusGroup a # Lit l # r) s = Some parts" and "l \<noteq> []"
  shows "length parts > 1 \<and> length (parts ! 1) < length s"
proof -
  from str_match_Some [OF assms(1)] obtain i n caps where
    i: "i \<le> length s" "matchHere (PlusGroup a # Lit l # r) (drop i s) = Some (n, caps)"
       "parts = take n (drop i s) # caps"
    by blast
  let ?t = "drop i s"
  from i(2) have "backtrack True 1 (Lit l # r) ?t (length (takeWhile (atomMatches a) ?t)) = Some (n, caps)"
    by simp
  from backtrack_Some [OF this] obtain j m caps' where
    j: "matchHere (Lit l # r) (drop j ?t) = Some (m, caps')" "caps = take j ?t # caps'"
    by auto
  from j(1) have "take (length l) (drop j ?t) = l"
    by (auto split: if_splits)
  then have "length (take (length l) (drop j ?t)) = length l"
    by (rule arg_cong)
  then have "length l \<le> length ?t - j"
    by simp
  with assms(2) have "j < length ?t"
    by (cases l) auto
  then have "length (take j ?t) < length s"
    by simp
  with i(3) j(2) show ?thesis
    by simp
qed

section \<open>The co-host loop terminates\<close>

function stripCoHosts :: "string \<Rightarrow> string" where
  "stripCoHosts showTitle =
     (case str_match regExp2 showTitle of
        None \<Rightarrow> showTitle
      | Some matchParts2 \<Rightarrow>
          if length matchParts2 > 2 then stripCoHosts (matchParts2 ! 1) else showTitle)"
  by pat_completeness auto
termination
proof (relation "measure length")
  show "wf (measure length)"
    by simp
next
  fix showTitle matchParts2
  assume "str_match regExp2 showTitle = Some matchParts2"
  then have "str_match (PlusGroup Dot # Lit '' with '' # [PlusGroup Dot]) showTitle = Some matchParts2"
    by (simp only: regExp2_def)
  then have "length (matchParts2 ! 1) < length showTitle"
    using group_then_literal_shorter by blast
  then show "(matchParts2 ! 1, showTitle) \<in> measure length"
    by simp
qed


text \<open>What \<open>refreshArchiveListFromXml\<close> computes from the text of an item's first \<open>title\<close>
  child: the pair \<open>(showTitle, showDate)\<close> handed to \<open>applyShow\<close>. A title that
  \<open>regExp1\<close> does not match keeps its raw text but gets no date.\<close>

definition xmlTitleDate :: "string \<Rightarrow> string option \<times> string option" where
  "xmlTitleDate rawTitle =
     (case str_match regExp1 rawTitle of
        None \<Rightarrow> (Some rawTitle, None)
      | Some matchParts1 \<Rightarrow>
          if length matchParts1 > 2
          then (Some (stripCoHosts (matchParts1 ! 1)), Some (matchParts1 ! 2))
          else (Some rawTitle, None))"

section \<open>Archive records and the table of shows\<close>

text \<open>An archive object: \<open>date\<close> and \<open>dateFound\<close> (milliseconds since the epoch, as
  \<open>Date.now()\<close> gives them) are missing from the live stream's object.\<close>

record archive =
  titleAnnounce :: string
  description :: string
  date :: "string option"
  mp3Link :: string
  dateFound :: "int option"

definition wfmu :: string where
  "wfmu = ''WFMU''"

definition wfmuLivestreamUrl :: string where
  "wfmuLivestreamUrl = ''http://stream0.wfmu.org/freeform-128k''"

definition wfmuBaseUrl :: string where
  "wfmuBaseUrl = ''http://wfmu.org''"

definition archiveAgeLimitMilliseconds :: int where
  "archiveAgeLimitMilliseconds = 30 * 24 * 60 * 60 * 1000"

definition liveStreamShow :: archive where
  "liveStreamShow =
     \<lparr>titleAnnounce = wfmu, description = wfmu, date = None,
      mp3Link = wfmuLivestreamUrl, dateFound = None\<rparr>"

text \<open>
  The table of shows is a plain object used as a dictionary. It is modelled by the list
  of its own properties in the order \<open>Object.keys\<close> enumerates them: the keys that are
  array indices first, in ascending numeric order, then the other keys in the order of
  their creation. The keys of a table are distinct.
\<close>

type_synonym table = "(string \<times> archive) list"

definition defaultShows :: table where
  "defaultShows = [(''play'', liveStreamShow), (''wfmu'', liveStreamShow)]"

definition isDigit :: "char \<Rightarrow> bool" where
  "isDigit c = (48 \<le> (of_char c :: nat) \<and> (of_char c :: nat) \<le> 57)"

definition digitsValue :: "string \<Rightarrow> nat" where
  "digitsValue k = foldl (\<lambda>n c. 10 * n + ((of_char c :: nat) - 48)) 0 k"

text \<open>A key is an array index when it is the canonical decimal form of an integer
  between 0 and \<open>2^32 - 2\<close>.\<close>

definition arrayIndex :: "string \<Rightarrow> nat option" where
  "arrayIndex k =
     (if k \<noteq> [] \<and> list_all isDigit k \<and> (k = ''0'' \<or> take 1 k \<noteq> ''0'')
         \<and> digitsValue k < 4294967295
      then Some (digitsValue k) else None)"

fun insertIndex :: "nat \<Rightarrow> string \<Rightarrow> archive \<Rightarrow> table \<Rightarrow> table" where
  "insertIndex n k v [] = [(k, v)]"
| "insertIndex n k v ((k', v') # t) =
     (case arrayIndex k' of
        Some n' \<Rightarrow> if n' < n then (k', v') # insertIndex n k v t else (k, v) # (k', v') # t
      | None \<Rightarrow> (k, v) # (k', v') # t)"

text \<open>\<open>getProperty t k\<close> reads the own property \<open>k\<close>; \<open>setProperty k v t\<close> is the
  assignment \<open>t[k] = v\<close>: an existing key keeps its place, a new one is created, and the
  key \<open>__proto__\<close> names the accessor of \<open>Object.prototype\<close>, so that assigning to it
  creates no own property.\<close>

definition getProperty :: "table \<Rightarrow> string \<Rightarrow> archive option" where
  "getProperty t k = map_of t k"

fun replaceValue :: "string \<Rightarrow> archive \<Rightarrow> table \<Rightarrow> table" where
  "replaceValue k v [] = []"
| "replaceValue k v ((k', v') # t) =
     (if k' = k then (k', v) # t else (k', v') # replaceValue k v t)"

definition setProperty :: "string \<Rightarrow> archive \<Rightarrow> table \<Rightarrow> table" where
  "setProperty k v t =
     (if k = ''__proto__'' then t
      else if getProperty t k \<noteq> None then replaceValue k v t
      else case arrayIndex k of
             Some n \<Rightarrow> insertIndex n k v t
           | None \<Rightarrow> t @ [(k, v)])"

text \<open>\<open>Object.assign(target, source)\<close> assigns the source's own properties, in their
  order, to the target.\<close>

text \<open>The lists that are tables: distinct keys, none of them \<open>__proto__\<close>.\<close>

definition isTable :: "table \<Rightarrow> bool" where
  "isTable t = (distinct (map fst t) \<and> ''__proto__'' \<notin> set (map fst t))"

definition objectAssign :: "table \<Rightarrow> table \<Rightarrow> table" where
  "objectAssign target source = foldl (\<lambda>t (k, v). setProperty k v t) target source"

section \<open>Title synonyms and the ingestion of one show\<close>

definition getTitleSynonyms :: "string \<Rightarrow> string list" where
  "getTitleSynonyms title0 =
     (let title1 = toLowerCase title0;
          title2 = filter (\<lambda>c. c \<noteq> CHR 0x22) title1;
          title3 = filter (\<lambda>c. c \<noteq> CHR '':'') title2;
          title = filter (\<lambda>c. c \<noteq> CHR ''!'') title3;
          synonyms = [title];
          synonyms1 =
            (case str_match sShowRegExp title of
               None \<Rightarrow> synonyms
             | Some sShowMatches \<Rightarrow>
                 if length sShowMatches > 1 then synonyms @ [sShowMatches ! 1] else synonyms);
          synonyms2 =
            (case str_match theRadioProgrammeRegExp title of
               None \<Rightarrow> synonyms1
             | Some theRadioProgrammeMatches \<Rightarrow>
                 if length theRadioProgrammeMatches > 1
                 then synonyms1 @ [theRadioProgrammeMatches ! 1] else synonyms1)
      in synonyms2)"


text \<open>\<open>axios.get(url)\<close> is a parameter: \<open>Some data\<close> is the body of the response, \<open>None\<close>
  a rejected request. A rejection is not caught by \<open>applyShow\<close>: it leaves it as the error
  \<open>FetchFailed\<close>. A title, a date or a link is an optional string, \<open>None\<close> for \<open>null\<close>;
  it is truthy when it is present and not empty. The time \<open>now\<close> is what \<open>Date.now()\<close>
  returned to this call.\<close>

datatype error = FetchFailed

type_synonym fetcher = "string \<Rightarrow> string option"

definition applyShow ::
  "fetcher \<Rightarrow> int \<Rightarrow> string option \<Rightarrow> string option \<Rightarrow> string option \<Rightarrow> table \<Rightarrow> error + table" where
  "applyShow axiosGet now title showDate m3uLink shows =
     (case (m3uLink, title, showDate) of
        (Some link, Some t, Some d) \<Rightarrow>
          if link \<noteq> [] \<and> t \<noteq> [] \<and> d \<noteq> [] then
            (case axiosGet link of
               None \<Rightarrow> Inl FetchFailed
             | Some data \<Rightarrow>
                 let archive = \<lparr>titleAnnounce = t, description = ''WFMU archive'', date = Some d,
                                mp3Link = trim data, dateFound = Some now\<rparr>
                 in Inr (foldl (\<lambda>sh k. setProperty k archive sh) shows (getTitleSynonyms t)))
          else Inr shows
      | _ \<Rightarrow> Inr shows)"

section \<open>The two listings\<close>

text \<open>An entry of the HTML page, as the selectors see it: the \<open>href\<close> attribute of each
  \<open>a.archive-link\<close> element (\<open>None\<close> when the attribute is missing), the text of each
  \<open>span.archive-link\<close> element and the text of each \<open>a.show-title-link\<close> element.\<close>

record htmlItem =
  archiveLinks :: "string option list"
  archiveDates :: "string list"
  showTitleLinks :: "string list"

text \<open>An item of the XML feed: the texts of its \<open>guid\<close> and \<open>title\<close> children.\<close>

record xmlItem =
  guidTexts :: "string list"
  titleTexts :: "string list"

definition htmlShowDate :: "string \<Rightarrow> string option" where
  "htmlShowDate text =
     (let dateText = trim text in
      case str_match dateRegExp dateText of
        None \<Rightarrow> None
      | Some dateMatches \<Rightarrow>
          if length dateMatches > 0 then Some (toLowerCase (trim (dateMatches ! 1))) else None)"

text \<open>The triple \<open>(showTitle, showDate, m3uLink)\<close> of an entry. A missing \<open>href\<close> is
  interpolated as the text \<open>undefined\<close>.\<close>

definition htmlTriple :: "htmlItem \<Rightarrow> string option \<times> string option \<times> string option" where
  "htmlTriple item =
     (let showDate = (case archiveDates item of [] \<Rightarrow> None | d # _ \<Rightarrow> htmlShowDate d);
          m3uLink = (case archiveLinks item of
                       [] \<Rightarrow> None
                     | hrefLink # _ \<Rightarrow>
                         Some (wfmuBaseUrl @ (case hrefLink of None \<Rightarrow> ''undefined'' | Some h \<Rightarrow> h)));
          showTitle = (case showTitleLinks item of [] \<Rightarrow> None | t # _ \<Rightarrow> Some t)
      in (showTitle, showDate, m3uLink))"

definition xmlTriple :: "xmlItem \<Rightarrow> string option \<times> string option \<times> string option" where
  "xmlTriple item =
     (let m3uLink = (case guidTexts item of [] \<Rightarrow> None | g # _ \<Rightarrow> Some g);
          (showTitle, showDate) =
             (case titleTexts item of [] \<Rightarrow> (None, None) | t # _ \<Rightarrow> xmlTitleDate t)
      in (showTitle, showDate, m3uLink))"

text \<open>
  \<open>async.each\<close> starts \<open>applyShow\<close> for every entry and fails as soon as one of them
  fails. The entries write into the table when their request returns: the list given to
  \<open>eachApplyShow\<close> holds the triples in that order, each with the time it read.
\<close>

fun eachApplyShow ::
  "fetcher \<Rightarrow> (int \<times> string option \<times> string option \<times> string option) list \<Rightarrow> table \<Rightarrow> error + table" where
  "eachApplyShow axiosGet [] shows = Inr shows"
| "eachApplyShow axiosGet ((now, showTitle, showDate, m3uLink) # rest) shows =
     (case applyShow axiosGet now showTitle showDate m3uLink shows of
        Inl e \<Rightarrow> Inl e
      | Inr shows' \<Rightarrow> eachApplyShow axiosGet rest shows')"

text \<open>The keys a triple writes into the table: the synonyms of its title when its
  three fields are truthy, none otherwise.\<close>

fun keysWritten :: "int \<times> string option \<times> string option \<times> string option \<Rightarrow> string list" where
  "keysWritten (now, Some t, Some d, Some l) =
     (if l \<noteq> [] \<and> t \<noteq> [] \<and> d \<noteq> [] then getTitleSynonyms t else [])"
| "keysWritten (now, _, _, _) = []"

definition htmlTriples ::
  "(int \<times> htmlItem) list \<Rightarrow> (int \<times> string option \<times> string option \<times> string option) list" where
  "htmlTriples items = map (\<lambda>(now, item). (now, htmlTriple item)) items"

definition xmlTriples ::
  "(int \<times> xmlItem) list \<Rightarrow> (int \<times> string option \<times> string option \<times> string option) list" where
  "xmlTriples items = map (\<lambda>(now, item). (now, xmlTriple item)) items"

definition refreshArchiveListFromHtml :: "fetcher \<Rightarrow> (int \<times> htmlItem) list \<Rightarrow> error + table" where
  "refreshArchiveListFromHtml axiosGet items =
     eachApplyShow axiosGet (htmlTriples items) defaultShows"

definition refreshArchiveListFromXml :: "fetcher \<Rightarrow> (int \<times> xmlItem) list \<Rightarrow> error + table" where
  "refreshArchiveListFromXml axiosGet items =
     eachApplyShow axiosGet (xmlTriples items) defaultShows"

text \<open>\<open>refreshFunction\<close> returns the new value of the variable \<open>archives\<close>, which is
  \<open>Object.assign({}, archives, latestArchives)\<close>; when the refresh of the listing fails
  the assignment is not reached.\<close>

definition mergedArchives :: "table \<Rightarrow> table \<Rightarrow> table" where
  "mergedArchives archives latestArchives = objectAssign (objectAssign [] archives) latestArchives"

definition refreshFunction :: "fetcher \<Rightarrow> (int \<times> xmlItem) list \<Rightarrow> table \<Rightarrow> error + table" where
  "refreshFunction axiosGet items archives =
     (case refreshArchiveListFromXml axiosGet items of
        Inl e \<Rightarrow> Inl e
      | Inr latestArchives \<Rightarrow> Inr (mergedArchives archives latestArchives))"

section \<open>Looking a show up\<close>

text \<open>The distance of the package \<open>js-levenshtein\<close>: the number of insertions, deletions
  and substitutions of single characters that turn one string into the other.\<close>

fun levenshtein :: "string \<Rightarrow> string \<Rightarrow> nat" where
  "levenshtein [] b = length b"
| "levenshtein (x # a) [] = Suc (length a)"
| "levenshtein (x # a) (y # b) =
     min (min (Suc (levenshtein a (y # b))) (Suc (levenshtein (x # a) b)))
         (levenshtein a b + (if x = y then 0 else 1))"

text \<open>The test \<open>archive.dateFound && now - archive.dateFound > archiveAgeLimitMilliseconds\<close>:
  a missing \<open>dateFound\<close> and the number 0 are falsy.\<close>

definition expired :: "int \<Rightarrow> archive \<Rightarrow> bool" where
  "expired now a =
     (case dateFound a of
        None \<Rightarrow> False
      | Some d \<Rightarrow> d \<noteq> 0 \<and> now - d > archiveAgeLimitMilliseconds)"

text \<open>One round of the \<open>forEach\<close> of \<open>getBestMatchArchive\<close>, on the pair
  \<open>(best, bestDistance)\<close>.\<close>

definition bestStep :: "int \<Rightarrow> string \<Rightarrow> string option \<times> nat \<Rightarrow> string \<times> archive \<Rightarrow> string option \<times> nat" where
  "bestStep now title acc entry =
     (let (best, bestDistance) = acc;
          (key, a) = entry;
          distance = levenshtein title key
      in if distance < bestDistance
         then (if expired now a then (best, bestDistance) else (Some key, distance))
         else (best, bestDistance))"

definition bestMatch :: "int \<Rightarrow> table \<Rightarrow> string \<Rightarrow> string option \<times> nat" where
  "bestMatch now archives title = foldl (bestStep now title) (None, 10000) archives"

text \<open>The result \<open>archives[best]\<close>: when no key was chosen, \<open>best\<close> is \<open>null\<close> and the
  property read is the one named \<open>null\<close>.\<close>

definition getBestMatchArchive :: "int \<Rightarrow> table \<Rightarrow> string \<Rightarrow> archive option" where
  "getBestMatchArchive now archives title =
     (case fst (bestMatch now archives title) of
        None \<Rightarrow> getProperty archives ''null''
      | Some best \<Rightarrow> getProperty archives best)"

text \<open>
  The value \<open>matchedArchive\<close> of the \<open>playArchive\<close> handler. A name that is not an own
  key but names a member of \<open>Object.prototype\<close> (after lower-casing these are
  \<open>constructor\<close> and \<open>__proto__\<close>) reads that member, which is not \<open>null\<close>: no
  fuzzy matching happens then.
\<close>

datatype matched = Archive archive | PrototypeMember | Undefined

definition playArchive :: "int \<Rightarrow> table \<Rightarrow> string \<Rightarrow> matched" where
  "playArchive now archives archiveName =
     (let requestedArchiveName = toLowerCase archiveName in
      case getProperty archives requestedArchiveName of
        Some a \<Rightarrow> Archive a
      | None \<Rightarrow>
          if requestedArchiveName = ''constructor'' \<or> requestedArchiveName = ''__proto__''
          then PrototypeMember
          else (case getBestMatchArchive now archives requestedArchiveName of
                  Some a \<Rightarrow> Archive a
                | None \<Rightarrow> Undefined))"

text \<open>
  Claim C10. For every title, the co-host loop of the XML title extraction (replace the
  title by the first group of \<open>/(.+) with (.+)/\<close> while the pattern matches) terminates:
  the loop as written returns a value, the one of the total function \<open>stripCoHosts\<close>, whose
  recursion is justified by the fact that a match strictly shortens the title.
\<close>

theorem coHostLoop_terminates: "coHostLoop showTitle = Some (stripCoHosts showTitle)"
proof (induction showTitle rule: stripCoHosts.induct)
  case (1 showTitle)
  show ?case
  proof (cases "str_match regExp2 showTitle")
    case None
    then show ?thesis
      by (subst coHostLoop.simps, subst stripCoHosts.simps) simp
  next
    case (Some matchParts2)
    show ?thesis
    proof (cases "length matchParts2 > 2")
      case True
      from "1.IH" [OF Some True] have "coHostLoop (matchParts2 ! 1) = Some (stripCoHosts (matchParts2 ! 1))" .
      with Some True show ?thesis
        by (subst coHostLoop.simps, subst stripCoHosts.simps) simp
    next
      case False
      with Some show ?thesis
        by (subst coHostLoop.simps, subst stripCoHosts.simps) simp
    qed
  qed
qed

theorem coHostLoop_terminates_witness:
  "coHostLoop ''Wake with Co-Host with Guest'' = Some ''Wake''"
proof -
  have "stripCoHosts ''Wake with Co-Host with Guest'' = ''Wake''"
    by (simp add: regExp2_def isLineTerminator_def)
  with coHostLoop_terminates [of "''Wake with Co-Host with Guest''"] show ?thesis
    by simp
qed

section \<open>Properties of the table operations\<close>

lemma getProperty_None_iff: "getProperty t k = None \<longleftrightarrow> k \<notin> fst ` set t"
  by (simp add: getProperty_def map_of_eq_None_iff)

lemma keys_insertIndex: "fst ` set (insertIndex n k v t) = insert k (fst ` set t)"
proof (induction t)
  case Nil
  then show ?case by simp
next
  case (Cons p t)
  obtain k' v' where p: "p = (k', v')" by (cases p)
  show ?case
  proof (cases "arrayIndex k'")
    case None
    then show ?thesis by (simp add: p)
  next
    case (Some n')
    then show ?thesis
      by (cases "n' < n") (simp_all add: p Cons.IH insert_commute)
  qed
qed

lemma distinct_insertIndex:
  "distinct (map fst t) \<Longrightarrow> k \<notin> fst ` set t \<Longrightarrow> distinct (map fst (insertIndex n k v t))"
proof (induction t)
  case Nil
  then show ?case by simp
next
  case (Cons p t)
  obtain k' v' where p: "p = (k', v')" by (cases p)
  from Cons.prems p have "k' \<notin> fst ` set (insertIndex n k v t)"
    unfolding keys_insertIndex by auto
  with Cons p show ?case
    by (auto split: option.splits)
qed

lemma getProperty_insertIndex:
  "k \<notin> fst ` set t \<Longrightarrow>
   getProperty (insertIndex n k v t) k' = (if k' = k then Some v else getProperty t k')"
  by (induction t) (auto simp: getProperty_def split: option.splits)

lemma keys_replaceValue: "map fst (replaceValue k v t) = map fst t"
  by (induction t) auto

lemma getProperty_replaceValue:
  "k \<in> fst ` set t \<Longrightarrow>
   getProperty (replaceValue k v t) k' = (if k' = k then Some v else getProperty t k')"
proof (induction t)
  case Nil
  then show ?case by simp
next
  case (Cons p t)
  obtain a b where p: "p = (a, b)" by (cases p)
  show ?case
  proof (cases "a = k")
    case True
    then show ?thesis
      by (simp add: p getProperty_def)
  next
    case False
    with Cons.prems p have "k \<in> fst ` set t"
      by auto
    from Cons.IH [OF this] False show ?thesis
      by (auto simp: p getProperty_def split: if_splits)
  qed
qed

lemma getProperty_append:
  "k \<notin> fst ` set t \<Longrightarrow>
   getProperty (t @ [(k, v)]) k' = (if k' = k then Some v else getProperty t k')"
  by (induction t) (auto simp: getProperty_def)

lemma getProperty_setProperty:
  "k \<noteq> ''__proto__'' \<Longrightarrow>
   getProperty (setProperty k v t) k' = (if k' = k then Some v else getProperty t k')"
proof (cases "k \<in> fst ` set t")
  case True
  assume "k \<noteq> ''__proto__''"
  with True show ?thesis
    by (simp add: setProperty_def getProperty_None_iff getProperty_replaceValue)
next
  case False
  assume "k \<noteq> ''__proto__''"
  with False show ?thesis
    by (simp add: setProperty_def getProperty_None_iff getProperty_insertIndex getProperty_append
          split: option.splits)
qed

lemma setProperty_proto: "setProperty ''__proto__'' v t = t"
  by (simp add: setProperty_def)

lemma keys_setProperty:
  "k \<noteq> ''__proto__'' \<Longrightarrow> fst ` set (setProperty k v t) = insert k (fst ` set t)"
proof (cases "k \<in> fst ` set t")
  case True
  assume "k \<noteq> ''__proto__''"
  moreover have "fst ` set (replaceValue k v t) = fst ` set t"
    using keys_replaceValue [of k v t] by (metis set_map)
  ultimately show ?thesis
    using True by (auto simp: setProperty_def getProperty_None_iff)
next
  case False
  assume "k \<noteq> ''__proto__''"
  with False show ?thesis
    by (simp add: setProperty_def getProperty_None_iff keys_insertIndex split: option.splits)
qed

lemma isTable_setProperty: "isTable t \<Longrightarrow> isTable (setProperty k v t)"
proof (cases "k = ''__proto__''")
  case True
  assume "isTable t"
  with True show ?thesis
    by (simp add: setProperty_proto)
next
  case False
  assume t: "isTable t"
  have "distinct (map fst (setProperty k v t))"
    using t by (auto simp: isTable_def setProperty_def getProperty_None_iff keys_replaceValue
       distinct_insertIndex split: option.splits)
  moreover have "''__proto__'' \<notin> fst ` set (setProperty k v t)"
    unfolding keys_setProperty [OF False] using t False by (auto simp: isTable_def)
  ultimately show ?thesis
    by (simp add: isTable_def)
qed

lemma isTable_objectAssign: "isTable target \<Longrightarrow> isTable (objectAssign target source)"
  unfolding objectAssign_def
  by (induction source arbitrary: target) (auto simp: isTable_setProperty)

lemma objectAssign_Cons:
  "objectAssign target ((k1, v1) # source) = objectAssign (setProperty k1 v1 target) source"
  by (simp add: objectAssign_def)

lemma getProperty_objectAssign:
  "isTable source \<Longrightarrow>
   getProperty (objectAssign target source) k =
     (case getProperty source k of Some v \<Rightarrow> Some v | None \<Rightarrow> getProperty target k)"
proof (induction source arbitrary: target)
  case Nil
  then show ?case
    by (simp add: objectAssign_def getProperty_def)
next
  case (Cons p source)
  obtain k1 v1 where p: "p = (k1, v1)" by (cases p)
  from Cons.prems p have t: "isTable source" and ne: "k1 \<noteq> ''__proto__''"
    and fresh: "k1 \<notin> fst ` set source"
    by (auto simp: isTable_def)
  from fresh have none: "getProperty source k1 = None"
    by (simp add: getProperty_None_iff)
  have "getProperty (p # source) k = (if k = k1 then Some v1 else getProperty source k)"
    by (simp add: getProperty_def p)
  then show ?case
    unfolding p objectAssign_Cons Cons.IH [OF t] getProperty_setProperty [OF ne]
    using none by (simp split: option.splits)
qed

lemma keys_objectAssign:
  "isTable source \<Longrightarrow>
   fst ` set (objectAssign target source) = fst ` set target \<union> fst ` set source"
proof (induction source arbitrary: target)
  case Nil
  then show ?case
    by (simp add: objectAssign_def)
next
  case (Cons p source)
  obtain k1 v1 where p: "p = (k1, v1)" by (cases p)
  from Cons.prems p have t: "isTable source" and ne: "k1 \<noteq> ''__proto__''"
    by (auto simp: isTable_def)
  show ?case
    unfolding p objectAssign_Cons Cons.IH [OF t] keys_setProperty [OF ne]
    by auto
qed

lemma getProperty_mergedArchives:
  assumes "isTable archives" and "isTable latestArchives"
  shows "getProperty (mergedArchives archives latestArchives) k =
     (case getProperty latestArchives k of Some v \<Rightarrow> Some v | None \<Rightarrow> getProperty archives k)"
proof -
  have "getProperty (objectAssign [] archives) k = getProperty archives k"
    unfolding getProperty_objectAssign [OF assms(1)]
    by (simp add: getProperty_def split: option.splits)
  then show ?thesis
    unfolding mergedArchives_def getProperty_objectAssign [OF assms(2)]
    by (simp split: option.splits)
qed

lemma keys_mergedArchives:
  assumes "isTable archives" and "isTable latestArchives"
  shows "fst ` set (mergedArchives archives latestArchives)
           = fst ` set archives \<union> fst ` set latestArchives"
  unfolding mergedArchives_def keys_objectAssign [OF assms(2)] keys_objectAssign [OF assms(1)]
  by simp

lemma isTable_mergedArchives: "isTable (mergedArchives archives latestArchives)"
  unfolding mergedArchives_def
  by (intro isTable_objectAssign) (simp add: isTable_def)

lemma isTable_defaultShows: "isTable defaultShows"
  by (simp add: isTable_def defaultShows_def)

section \<open>Properties of the ingestion\<close>

lemmas char_eval = toLowerCase_def toLowerCaseChar_def char_of_def bit_Suc_0_iff
  isLineTerminator_def isWhiteSpace_def trim_def

lemmas regexp_defs = sShowRegExp_def theRadioProgrammeRegExp_def dateRegExp_def regExp1_def regExp2_def

lemmas ingest_defs = refreshArchiveListFromXml_def refreshArchiveListFromHtml_def refreshFunction_def
  xmlTriples_def htmlTriples_def xmlTriple_def htmlTriple_def xmlTitleDate_def htmlShowDate_def applyShow_def getTitleSynonyms_def
  setProperty_def getProperty_def arrayIndex_def isDigit_def defaultShows_def wfmuBaseUrl_def
  mergedArchives_def objectAssign_def

lemma error_is_FetchFailed: "(e :: error) = FetchFailed"
  by (cases e)

lemma applyShow_cases:
  "applyShow axiosGet now title showDate m3uLink tbl = Inr tbl \<and> keysWritten (now, title, showDate, m3uLink) = []
   \<or> (\<exists>t d l. title = Some t \<and> showDate = Some d \<and> m3uLink = Some l \<and> t \<noteq> [] \<and> d \<noteq> [] \<and> l \<noteq> []
        \<and> keysWritten (now, title, showDate, m3uLink) = getTitleSynonyms t
        \<and> (case axiosGet l of
              None \<Rightarrow> applyShow axiosGet now title showDate m3uLink tbl = Inl FetchFailed
            | Some data \<Rightarrow> applyShow axiosGet now title showDate m3uLink tbl =
                Inr (foldl (\<lambda>sh k. setProperty k
                       \<lparr>titleAnnounce = t, description = ''WFMU archive'', date = Some d,
                        mp3Link = trim data, dateFound = Some now\<rparr> sh) tbl (getTitleSynonyms t))))"
  by (cases title; cases showDate; cases m3uLink) (auto simp: applyShow_def split: option.splits)

lemma getProperty_foldl_setProperty:
  "getProperty (foldl (\<lambda>sh k. setProperty k a sh) tbl ks) k' =
     (if k' \<in> set ks \<and> k' \<noteq> ''__proto__'' then Some a else getProperty tbl k')"
proof (induction ks arbitrary: tbl)
  case Nil
  then show ?case by simp
next
  case (Cons k ks)
  show ?case
  proof (cases "k = ''__proto__''")
    case True
    then show ?thesis
      by (simp add: Cons.IH setProperty_proto)
  next
    case False
    then show ?thesis
      by (simp add: Cons.IH getProperty_setProperty)
  qed
qed

lemma isTable_foldl_setProperty:
  "isTable tbl \<Longrightarrow> isTable (foldl (\<lambda>sh k. setProperty k a sh) tbl ks)"
  by (induction ks arbitrary: tbl) (simp_all add: isTable_setProperty)

lemma applyShow_isTable:
  "applyShow axiosGet now title showDate m3uLink tbl = Inr tbl' \<Longrightarrow> isTable tbl \<Longrightarrow> isTable tbl'"
  using applyShow_cases [of axiosGet now title showDate m3uLink tbl]
  by (auto simp: isTable_foldl_setProperty split: option.splits)

lemma applyShow_present:
  "applyShow axiosGet now title showDate m3uLink tbl = Inr tbl' \<Longrightarrow>
   getProperty tbl k \<noteq> None \<Longrightarrow> getProperty tbl' k \<noteq> None"
  using applyShow_cases [of axiosGet now title showDate m3uLink tbl]
  by (auto simp: getProperty_foldl_setProperty split: option.splits)

lemma applyShow_unwritten:
  "applyShow axiosGet now title showDate m3uLink tbl = Inr tbl' \<Longrightarrow>
   k \<notin> set (keysWritten (now, title, showDate, m3uLink)) \<Longrightarrow> getProperty tbl' k = getProperty tbl k"
  using applyShow_cases [of axiosGet now title showDate m3uLink tbl]
  by (auto simp: getProperty_foldl_setProperty split: option.splits)

lemma eachApplyShow_isTable:
  "eachApplyShow axiosGet triples tbl = Inr tbl' \<Longrightarrow> isTable tbl \<Longrightarrow> isTable tbl'"
proof (induction axiosGet triples tbl rule: eachApplyShow.induct)
  case (1 axiosGet tbl)
  then show ?case by simp
next
  case (2 axiosGet now showTitle showDate m3uLink rest tbl)
  then show ?case
    by (auto split: sum.splits dest: applyShow_isTable)
qed

lemma eachApplyShow_present:
  "eachApplyShow axiosGet triples tbl = Inr tbl' \<Longrightarrow>
   getProperty tbl k \<noteq> None \<Longrightarrow> getProperty tbl' k \<noteq> None"
proof (induction axiosGet triples tbl rule: eachApplyShow.induct)
  case (1 axiosGet tbl)
  then show ?case by simp
next
  case (2 axiosGet now showTitle showDate m3uLink rest tbl)
  from "2.prems"(1) obtain mid where
    mid: "applyShow axiosGet now showTitle showDate m3uLink tbl = Inr mid"
      "eachApplyShow axiosGet rest mid = Inr tbl'"
    by (auto split: sum.splits)
  from applyShow_present [OF mid(1) "2.prems"(2)] have "getProperty mid k \<noteq> None" .
  from "2.IH" [OF mid(1) mid(2) this] show ?case .
qed

lemma eachApplyShow_unwritten:
  "eachApplyShow axiosGet triples tbl = Inr tbl' \<Longrightarrow>
   k \<notin> set (concat (map keysWritten triples)) \<Longrightarrow> getProperty tbl' k = getProperty tbl k"
proof (induction axiosGet triples tbl rule: eachApplyShow.induct)
  case (1 axiosGet tbl)
  then show ?case by simp
next
  case (2 axiosGet now showTitle showDate m3uLink rest tbl)
  from "2.prems"(1) obtain mid where
    mid: "applyShow axiosGet now showTitle showDate m3uLink tbl = Inr mid"
      "eachApplyShow axiosGet rest mid = Inr tbl'"
    by (auto split: sum.splits)
  from "2.prems"(2) have a: "k \<notin> set (keysWritten (now, showTitle, showDate, m3uLink))"
    and b: "k \<notin> set (concat (map keysWritten rest))"
    by auto
  from applyShow_unwritten [OF mid(1) a] "2.IH" [OF mid(1) mid(2) b] show ?case
    by simp
qed

lemma eachApplyShow_fails:
  "(now, Some t, Some d, Some l) \<in> set triples \<Longrightarrow> t \<noteq> [] \<Longrightarrow> d \<noteq> [] \<Longrightarrow> l \<noteq> [] \<Longrightarrow>
   axiosGet l = None \<Longrightarrow> eachApplyShow axiosGet triples tbl = Inl FetchFailed"
proof (induction axiosGet triples tbl rule: eachApplyShow.induct)
  case (1 axiosGet tbl)
  then show ?case by simp
next
  case (2 axiosGet now' showTitle showDate m3uLink rest tbl)
  show ?case
  proof (cases "applyShow axiosGet now' showTitle showDate m3uLink tbl")
    case (Inl e)
    then show ?thesis
      by (simp add: error_is_FetchFailed [of e])
  next
    case (Inr mid)
    have "(now', showTitle, showDate, m3uLink) \<noteq> (now, Some t, Some d, Some l)"
    proof
      assume "(now', showTitle, showDate, m3uLink) = (now, Some t, Some d, Some l)"
      with "2.prems" have "applyShow axiosGet now' showTitle showDate m3uLink tbl = Inl FetchFailed"
        by (simp add: applyShow_def)
      with Inr show False by simp
    qed
    with "2.prems"(1) have "(now, Some t, Some d, Some l) \<in> set rest"
      by auto
    from "2.IH" [OF Inr this "2.prems"(2-5)] Inr show ?thesis
      by simp
  qed
qed

text \<open>
  Claim C3 (as the program has it). \<open>applyShow\<close> does not catch a failure of the request
  that resolves an entry's playlist link, and \<open>async.each\<close> fails when one of its
  iterations fails: as soon as the request of one complete triple (title, date and link
  all truthy) fails, the refresh of the whole listing fails. No table is produced from the
  other triples, and \<open>refreshFunction\<close> does not reach its assignment.
\<close>

theorem fetch_failure_aborts_refresh:
  assumes "axiosGet l = None" and "t \<noteq> []" and "d \<noteq> []" and "l \<noteq> []"
  shows "((now, xitem) \<in> set xitems \<and> xmlTriple xitem = (Some t, Some d, Some l) \<longrightarrow>
            refreshArchiveListFromXml axiosGet xitems = Inl FetchFailed
            \<and> refreshFunction axiosGet xitems archives = Inl FetchFailed)
       \<and> ((now, hitem) \<in> set hitems \<and> htmlTriple hitem = (Some t, Some d, Some l) \<longrightarrow>
            refreshArchiveListFromHtml axiosGet hitems = Inl FetchFailed)"
proof (intro conjI impI)
  assume a: "(now, xitem) \<in> set xitems \<and> xmlTriple xitem = (Some t, Some d, Some l)"
  then have "(now, Some t, Some d, Some l) \<in> set (xmlTriples xitems)"
    by (force simp: xmlTriples_def)
  from eachApplyShow_fails [where axiosGet = axiosGet, OF this assms(2-4) assms(1)]
  show x: "refreshArchiveListFromXml axiosGet xitems = Inl FetchFailed"
    by (simp add: refreshArchiveListFromXml_def)
  then show "refreshFunction axiosGet xitems archives = Inl FetchFailed"
    by (simp add: refreshFunction_def)
next
  assume a: "(now, hitem) \<in> set hitems \<and> htmlTriple hitem = (Some t, Some d, Some l)"
  then have "(now, Some t, Some d, Some l) \<in> set (htmlTriples hitems)"
    by (force simp: htmlTriples_def)
  from eachApplyShow_fails [where axiosGet = axiosGet, OF this assms(2-4) assms(1)]
  show "refreshArchiveListFromHtml axiosGet hitems = Inl FetchFailed"
    by (simp add: refreshArchiveListFromHtml_def)
qed

theorem fetch_failure_aborts_refresh_witness:
  "map_of [] ''http://wfmu.org/a.m3u'' = (None :: string option)
   \<and> xmlTriple \<lparr>guidTexts = [''http://wfmu.org/a.m3u''],
                 titleTexts = [''WFMU MP3 Archive: Wake from Monday 1/1'']\<rparr>
       = (Some ''Wake'', Some ''Monday 1/1'', Some ''http://wfmu.org/a.m3u'')
   \<and> refreshFunction (map_of [])
        [(0, \<lparr>guidTexts = [''http://wfmu.org/a.m3u''],
              titleTexts = [''WFMU MP3 Archive: Wake from Monday 1/1'']\<rparr>)] defaultShows
       = Inl FetchFailed"
proof -
  let ?item = "\<lparr>guidTexts = [''http://wfmu.org/a.m3u''],
                 titleTexts = [''WFMU MP3 Archive: Wake from Monday 1/1'']\<rparr>"
  have g: "map_of [] ''http://wfmu.org/a.m3u'' = (None :: string option)"
    by simp
  have x: "xmlTriple ?item = (Some ''Wake'', Some ''Monday 1/1'', Some ''http://wfmu.org/a.m3u'')"
    by (simp add: xmlTriple_def xmlTitleDate_def regexp_defs char_eval)
  from fetch_failure_aborts_refresh [where axiosGet = "map_of []" and l = "''http://wfmu.org/a.m3u''"
      and t = "''Wake''" and d = "''Monday 1/1''" and now = 0 and xitem = ?item
      and xitems = "[(0, ?item)]" and archives = defaultShows, OF g] x
  have "refreshFunction (map_of []) [(0, ?item)] defaultShows = Inl FetchFailed"
    by simp
  with g x show ?thesis
    by simp
qed

text \<open>The claim as it is stated fails: the first entry below is resolved, the request
  of the second fails, and the refresh returns no table.\<close>

theorem fetch_failure_counterexample:
  "refreshArchiveListFromXml (map_of [(''http://wfmu.org/b.m3u'', ''http://mp3.wfmu.org/b.mp3'')])
     [(0, \<lparr>guidTexts = [''http://wfmu.org/b.m3u''],
           titleTexts = [''WFMU MP3 Archive: Wake from Tuesday 1/2'']\<rparr>),
      (0, \<lparr>guidTexts = [''http://wfmu.org/a.m3u''],
           titleTexts = [''WFMU MP3 Archive: Shrunken Planet from Monday 1/1'']\<rparr>)]
   = Inl FetchFailed"
  by (simp add: ingest_defs regexp_defs char_eval)

section \<open>The permanent keys\<close>

lemma defaultShows_get:
  "k = ''play'' \<or> k = ''wfmu'' \<Longrightarrow> getProperty defaultShows k = Some liveStreamShow"
  by (auto simp: defaultShows_def getProperty_def)


lemma refresh_permanent:
  assumes "eachApplyShow axiosGet triples defaultShows = Inr t" and "k = ''play'' \<or> k = ''wfmu''"
  shows "getProperty t k \<noteq> None"
    and "k \<notin> set (concat (map keysWritten triples)) \<Longrightarrow> getProperty t k = Some liveStreamShow"
proof -
  from defaultShows_get [OF assms(2)] have "getProperty defaultShows k \<noteq> None"
    by simp
  from eachApplyShow_present [OF assms(1) this] show "getProperty t k \<noteq> None" .
  assume "k \<notin> set (concat (map keysWritten triples))"
  from eachApplyShow_unwritten [OF assms(1) this] defaultShows_get [OF assms(2)]
  show "getProperty t k = Some liveStreamShow"
    by simp
qed

lemma refreshFunction_permanent:
  assumes "refreshFunction axiosGet xitems archives = Inr t" and "isTable archives"
    and "k = ''play'' \<or> k = ''wfmu''"
  shows "getProperty t k \<noteq> None"
    and "k \<notin> set (concat (map keysWritten (xmlTriples xitems))) \<Longrightarrow> getProperty t k = Some liveStreamShow"
proof -
  from assms(1) obtain latest where
    l: "eachApplyShow axiosGet (xmlTriples xitems) defaultShows = Inr latest"
    and t: "t = mergedArchives archives latest"
    by (auto simp: refreshFunction_def refreshArchiveListFromXml_def split: sum.splits)
  from eachApplyShow_isTable [OF l isTable_defaultShows] have tl: "isTable latest" .
  from refresh_permanent(1) [OF l assms(3)] obtain a where a: "getProperty latest k = Some a"
    by auto
  then have m: "getProperty t k = getProperty latest k"
    unfolding t getProperty_mergedArchives [OF assms(2) tl] by simp
  with a show "getProperty t k \<noteq> None"
    by simp
  assume "k \<notin> set (concat (map keysWritten (xmlTriples xitems)))"
  from refresh_permanent(2) [OF l assms(3) this] m show "getProperty t k = Some liveStreamShow"
    by simp
qed




section \<open>Exact lookup\<close>

text \<open>
  Claim C1 (as the program has it). When the lower-cased name is a key of the table, the
  handler takes that key's record, whatever its age, and does not call
  \<open>getBestMatchArchive\<close>. In particular the name \<open>wfmu\<close> gives the record stored under
  \<open>wfmu\<close>, which is the live-stream record in every table produced by a refresh none of
  whose triples wrote the key \<open>wfmu\<close>.
\<close>

theorem exact_key_short_circuits:
  "(getProperty archives (toLowerCase archiveName) = Some a \<longrightarrow>
      playArchive now archives archiveName = Archive a)
   \<and> (isTable archives0 \<and> refreshFunction axiosGet xitems archives0 = Inr archives
        \<and> ''wfmu'' \<notin> set (concat (map keysWritten (xmlTriples xitems)))
      \<longrightarrow> playArchive now archives ''wfmu'' = Archive liveStreamShow)"
proof (intro conjI impI)
  assume "getProperty archives (toLowerCase archiveName) = Some a"
  then show "playArchive now archives archiveName = Archive a"
    by (simp add: playArchive_def)
next
  assume h: "isTable archives0 \<and> refreshFunction axiosGet xitems archives0 = Inr archives
        \<and> ''wfmu'' \<notin> set (concat (map keysWritten (xmlTriples xitems)))"
  then have "getProperty archives ''wfmu'' = Some liveStreamShow"
    using refreshFunction_permanent(2) [of axiosGet xitems archives0 archives "''wfmu''"]
    by simp
  moreover have "toLowerCase ''wfmu'' = ''wfmu''"
    by (simp add: char_eval)
  ultimately show "playArchive now archives ''wfmu'' = Archive liveStreamShow"
    by (simp add: playArchive_def)
qed

theorem exact_key_short_circuits_witness:
  "isTable defaultShows
   \<and> refreshFunction (map_of [(''http://wfmu.org/a.m3u'', ''http://mp3.wfmu.org/a.mp3'')])
        [(1000, \<lparr>guidTexts = [''http://wfmu.org/a.m3u''],
                 titleTexts = [''WFMU MP3 Archive: Wake from Monday 1/1'']\<rparr>)] defaultShows
      = Inr [(''play'', liveStreamShow), (''wfmu'', liveStreamShow),
             (''wake'', \<lparr>titleAnnounce = ''Wake'', description = ''WFMU archive'',
                date = Some ''Monday 1/1'', mp3Link = ''http://mp3.wfmu.org/a.mp3'',
                dateFound = Some 1000\<rparr>)]
   \<and> expired 5000000000 \<lparr>titleAnnounce = ''Wake'', description = ''WFMU archive'',
             date = Some ''Monday 1/1'', mp3Link = ''http://mp3.wfmu.org/a.mp3'',
             dateFound = Some 1000\<rparr>
   \<and> playArchive 5000000000
         [(''play'', liveStreamShow), (''wfmu'', liveStreamShow),
          (''wake'', \<lparr>titleAnnounce = ''Wake'', description = ''WFMU archive'',
             date = Some ''Monday 1/1'', mp3Link = ''http://mp3.wfmu.org/a.mp3'',
             dateFound = Some 1000\<rparr>)] ''Wake''
     = Archive \<lparr>titleAnnounce = ''Wake'', description = ''WFMU archive'',
             date = Some ''Monday 1/1'', mp3Link = ''http://mp3.wfmu.org/a.mp3'',
             dateFound = Some 1000\<rparr>
   \<and> playArchive 5000000000
         [(''play'', liveStreamShow), (''wfmu'', liveStreamShow),
          (''wake'', \<lparr>titleAnnounce = ''Wake'', description = ''WFMU archive'',
             date = Some ''Monday 1/1'', mp3Link = ''http://mp3.wfmu.org/a.mp3'',
             dateFound = Some 1000\<rparr>)] ''wfmu''
     = Archive liveStreamShow"
proof -
  let ?get = "map_of [(''http://wfmu.org/a.m3u'', ''http://mp3.wfmu.org/a.mp3'')]"
  let ?items = "[(1000, \<lparr>guidTexts = [''http://wfmu.org/a.m3u''],
                 titleTexts = [''WFMU MP3 Archive: Wake from Monday 1/1'']\<rparr>)]"
  let ?a = "\<lparr>titleAnnounce = ''Wake'', description = ''WFMU archive'',
             date = Some ''Monday 1/1'', mp3Link = ''http://mp3.wfmu.org/a.mp3'',
             dateFound = Some 1000\<rparr>"
  let ?t = "[(''play'', liveStreamShow), (''wfmu'', liveStreamShow), (''wake'', ?a)]"
  have r: "refreshFunction ?get ?items defaultShows = Inr ?t"
    by (simp add: ingest_defs regexp_defs char_eval)
  have w: "''wfmu'' \<notin> set (concat (map keysWritten (xmlTriples ?items)))"
    by (simp add: ingest_defs regexp_defs char_eval)
  have g: "getProperty ?t (toLowerCase ''Wake'') = Some ?a"
    by (simp add: getProperty_def char_eval)
  have e: "expired 5000000000 ?a"
    by (simp add: expired_def archiveAgeLimitMilliseconds_def)
  from exact_key_short_circuits [where archives = ?t and archiveName = "''Wake''" and a = ?a
      and now = 5000000000 and ?archives0.0 = defaultShows and axiosGet = ?get and xitems = ?items]
    g r w isTable_defaultShows
  have "playArchive 5000000000 ?t ''Wake'' = Archive ?a
      \<and> playArchive 5000000000 ?t ''wfmu'' = Archive liveStreamShow"
    by blast
  with r e isTable_defaultShows show ?thesis
    by simp
qed

text \<open>The claim as it is stated fails: after a refresh whose feed has a show titled
  \<open>WFMU\<close>, the name \<open>wfmu\<close> gives that show's record, not the live stream.\<close>

theorem exact_key_short_circuits_counterexample:
  "refreshFunction (map_of [(''http://wfmu.org/w.m3u'', ''http://mp3.wfmu.org/w.mp3'')])
     [(1000, \<lparr>guidTexts = [''http://wfmu.org/w.m3u''],
              titleTexts = [''WFMU MP3 Archive: WFMU from Monday 1/1'']\<rparr>)] defaultShows
   = Inr [(''play'', liveStreamShow),
          (''wfmu'', \<lparr>titleAnnounce = ''WFMU'', description = ''WFMU archive'',
             date = Some ''Monday 1/1'', mp3Link = ''http://mp3.wfmu.org/w.mp3'',
             dateFound = Some 1000\<rparr>)]
   \<and> playArchive 2000
        [(''play'', liveStreamShow),
         (''wfmu'', \<lparr>titleAnnounce = ''WFMU'', description = ''WFMU archive'',
             date = Some ''Monday 1/1'', mp3Link = ''http://mp3.wfmu.org/w.mp3'',
             dateFound = Some 1000\<rparr>)] ''wfmu'' \<noteq> Archive liveStreamShow"
  by (simp add: ingest_defs regexp_defs char_eval liveStreamShow_def playArchive_def)

section \<open>Normalisation of the keys\<close>


















section \<open>The date of an entry of the HTML page\<close>

lemma backtrack_greatest:
  "lo \<le> j \<Longrightarrow> j \<le> n \<Longrightarrow> matchHere r (drop j s) = Some (m, caps) \<Longrightarrow>
   (\<forall>i. j < i \<and> i \<le> n \<longrightarrow> matchHere r (drop i s) = None) \<Longrightarrow>
   backtrack cap lo r s n = Some (j + m, if cap then take j s # caps else caps)"
proof (induction n)
  case 0
  then show ?case by simp
next
  case (Suc n)
  show ?case
  proof (cases "j = Suc n")
    case True
    with Suc.prems show ?thesis by simp
  next
    case False
    with Suc.prems have j: "j \<le> n" and none: "matchHere r (drop (Suc n) s) = None"
      and lo: "\<not> Suc n < lo"
      by auto
    from Suc.prems(4) have "\<forall>i. j < i \<and> i \<le> n \<longrightarrow> matchHere r (drop i s) = None"
      by auto
    from Suc.IH [OF Suc.prems(1) j Suc.prems(3) this] none lo show ?thesis
      by simp
  qed
qed

lemma backtrack_None:
  "(\<forall>j. lo \<le> j \<and> j \<le> n \<longrightarrow> matchHere r (drop j s) = None) \<Longrightarrow> backtrack cap lo r s n = None"
proof (induction n)
  case 0
  then show ?case by simp
next
  case (Suc n)
  then have "backtrack cap lo r s n = None"
    by auto
  with Suc.prems show ?case
    by (cases "Suc n < lo") auto
qed

lemma str_match_at:
  "i \<le> length s \<Longrightarrow> (\<forall>j<i. matchHere p (drop j s) = None) \<Longrightarrow>
   matchHere p (drop i s) = Some (n, caps) \<Longrightarrow> str_match p s = Some (take n (drop i s) # caps)"
proof (induction s arbitrary: i)
  case Nil
  then show ?case by simp
next
  case (Cons c s)
  show ?case
  proof (cases i)
    case 0
    with Cons.prems show ?thesis by simp
  next
    case (Suc i')
    with Cons.prems have none: "matchHere p (c # s) = None"
      by force
    from Cons.prems Suc have a: "i' \<le> length s" and c: "matchHere p (drop i' s) = Some (n, caps)"
      by auto
    have b: "\<forall>j<i'. matchHere p (drop j s) = None"
    proof (intro allI impI)
      fix j assume "j < i'"
      with Suc have "Suc j < i" by simp
      with Cons.prems(2) have "matchHere p (drop (Suc j) (c # s)) = None" by blast
      then show "matchHere p (drop j s) = None" by simp
    qed
    from Cons.IH [OF a b c] none Suc show ?thesis
      by simp
  qed
qed

lemma colon_tail:
  "matchHere [Lit '':'', Star DotBarSpace] v =
     (case v of
        [] \<Rightarrow> None
      | c # w \<Rightarrow> if c = CHR '':'' then Some (1 + length (takeWhile (atomMatches DotBarSpace) w), [])
                 else None)"
  by (cases v) auto

lemma colon_not_terminator: "\<not> isLineTerminator CHR '':''"
  by (simp add: isLineTerminator_def)

lemma drop_within_takeWhile:
  assumes "d \<le> length (takeWhile P b)" and "drop d b = c # w"
  shows "c \<in> set (takeWhile P b) \<or> \<not> P c"
proof (cases "d < length (takeWhile P b)")
  case True
  then have "takeWhile P b ! d = b ! d"
    by (rule takeWhile_nth)
  moreover from assms(2) have "b ! d = c"
    by (metis nth_via_drop)
  ultimately show ?thesis
    using True by (metis nth_mem)
next
  case False
  with assms(1) have "d = length (takeWhile P b)"
    by simp
  with assms(2) have "dropWhile P b = c # w"
    by (simp add: dropWhile_eq_drop)
  then show ?thesis
    using hd_dropWhile [of P b] by auto
qed

text \<open>The date pattern at the start of a line: the group is everything before the last
  colon of the line.\<close>

lemma dateRegExp_here:
  assumes "a \<noteq> []" and "\<forall>c\<in>set a. \<not> isLineTerminator c"
    and "CHR '':'' \<notin> set (takeWhile (\<lambda>c. \<not> isLineTerminator c) b)"
  shows "\<exists>n. matchHere dateRegExp (a @ CHR '':'' # b) = Some (n, [a])"
proof -
  let ?P = "\<lambda>c. \<not> isLineTerminator c"
  let ?u = "a @ CHR '':'' # b"
  let ?r = "[Lit '':'', Star DotBarSpace]"
  have dot: "atomMatches Dot = ?P"
    by (simp add: fun_eq_iff)
  have tw: "takeWhile ?P ?u = a @ CHR '':'' # takeWhile ?P b"
    using assms(2) by (simp add: takeWhile_append2 colon_not_terminator)
  then have n: "length (takeWhile ?P ?u) = length a + 1 + length (takeWhile ?P b)"
    by simp
  have lo: "1 \<le> length a"
    using assms(1) by (cases a) auto
  have here: "matchHere ?r (drop (length a) ?u) =
      Some (1 + length (takeWhile (atomMatches DotBarSpace) b), [])"
    by (simp add: colon_tail)
  have later: "\<forall>i. length a < i \<and> i \<le> length (takeWhile ?P ?u) \<longrightarrow> matchHere ?r (drop i ?u) = None"
  proof (intro allI impI)
    fix i assume i: "length a < i \<and> i \<le> length (takeWhile ?P ?u)"
    let ?d = "i - length a - 1"
    from i n have d: "?d \<le> length (takeWhile ?P b)"
      by arith
    from i have dr: "drop i ?u = drop ?d b"
      by (simp add: drop_Cons')
    show "matchHere ?r (drop i ?u) = None"
    proof (cases "drop ?d b")
      case Nil
      with dr show ?thesis
        by (simp add: colon_tail)
    next
      case (Cons c w)
      from drop_within_takeWhile [OF d Cons] assms(3) colon_not_terminator have "c \<noteq> CHR '':''"
        by auto
      with Cons dr show ?thesis
        by (simp add: colon_tail)
    qed
  qed
  from backtrack_greatest [OF lo _ here later, of True] n
  have "backtrack True 1 ?r ?u (length (takeWhile ?P ?u)) =
      Some (length a + (1 + length (takeWhile (atomMatches DotBarSpace) b)), [a])"
    by simp
  then show ?thesis
    by (simp add: dateRegExp_def dot)
qed

text \<open>No match of the date pattern starts in lines where no colon follows a character
  that is not a line terminator.\<close>

lemma dateRegExp_not_before:
  assumes "isLineTerminator (last pre)"
    and "\<forall>i. Suc i < length pre \<and> pre ! Suc i = CHR '':'' \<longrightarrow> isLineTerminator (pre ! i)"
    and "i < length pre"
  shows "matchHere dateRegExp (drop i (pre @ rest)) = None"
proof -
  let ?P = "\<lambda>c. \<not> isLineTerminator c"
  let ?q = "drop i pre"
  let ?u = "drop i (pre @ rest)"
  let ?r = "[Lit '':'', Star DotBarSpace]"
  have dot: "atomMatches Dot = ?P"
    by (simp add: fun_eq_iff)
  from assms(3) have u: "?u = ?q @ rest" and q: "?q \<noteq> []"
    by simp_all
  from q assms(3) have "last ?q = last pre"
    by simp
  with q have mem: "last pre \<in> set ?q"
    by (metis last_in_set)
  with assms(1) have tw: "takeWhile ?P ?u = takeWhile ?P ?q"
    unfolding u by (intro takeWhile_append1) auto
  have less: "length (takeWhile ?P ?q) < length ?q"
  proof (rule ccontr)
    assume "\<not> length (takeWhile ?P ?q) < length ?q"
    with length_takeWhile_le [of ?P ?q] have "length (takeWhile ?P ?q) = length ?q"
      by simp
    then have "takeWhile ?P ?q = ?q"
      by (metis takeWhile_eq_take take_all order_refl)
    then have "\<forall>c\<in>set ?q. ?P c"
      by (metis set_takeWhileD)
    with mem assms(1) show False
      by blast
  qed
  have none: "\<forall>j. 1 \<le> j \<and> j \<le> length (takeWhile ?P ?u) \<longrightarrow> matchHere ?r (drop j ?u) = None"
  proof (intro allI impI)
    fix j assume j: "1 \<le> j \<and> j \<le> length (takeWhile ?P ?u)"
    with tw less have ij: "i + j < length pre"
      by auto
    then have dr: "drop j ?u = pre ! (i + j) # drop (Suc (i + j)) pre @ rest"
      by (simp add: Cons_nth_drop_Suc add.commute)
    have "pre ! (i + j) \<noteq> CHR '':''"
    proof
      assume c: "pre ! (i + j) = CHR '':''"
      from j obtain j' where j': "j = Suc j'"
        by (cases j) auto
      with ij c assms(2) have lt: "isLineTerminator (pre ! (i + j'))"
        by auto
      from j j' tw have jl: "j' < length (takeWhile ?P ?q)"
        by simp
      then have "takeWhile ?P ?q ! j' = ?q ! j'"
        by (rule takeWhile_nth)
      moreover from jl have "takeWhile ?P ?q ! j' \<in> set (takeWhile ?P ?q)"
        by (rule nth_mem)
      ultimately have "?P (?q ! j')"
        by (metis set_takeWhileD)
      moreover from ij j' have "?q ! j' = pre ! (i + j')"
        by simp
      ultimately show False
        using lt by simp
    qed
    with dr show "matchHere ?r (drop j ?u) = None"
      by (simp add: colon_tail)
  qed
  from backtrack_None [OF none] show ?thesis
    by (simp add: dateRegExp_def dot)
qed

text \<open>
  Claim C4 (as the program has it). The date of an HTML entry is computed from the trimmed
  text of its date element by the pattern \<open>/(.+):[.|\s]*/\<close>, whose group is greedy: the
  match starts at the first line in which a colon follows at least one character, and the
  date is that line up to its last colon (not its first), trimmed and lower-cased. Below,
  \<open>pre\<close> holds the lines before the match, \<open>a\<close> the group and \<open>b\<close> what follows the
  last colon of the line.
\<close>

theorem html_date_before_last_colon:
  assumes "trim rawDate = pre @ a @ CHR '':'' # b"
    and "pre = [] \<or> isLineTerminator (last pre)"
    and "\<forall>i. Suc i < length pre \<and> pre ! Suc i = CHR '':'' \<longrightarrow> isLineTerminator (pre ! i)"
    and "a \<noteq> []" and "\<forall>c\<in>set a. \<not> isLineTerminator c"
    and "CHR '':'' \<notin> set (takeWhile (\<lambda>c. \<not> isLineTerminator c) b)"
  shows "htmlShowDate rawDate = Some (toLowerCase (trim a))
       \<and> (archiveDates item = rawDate # others \<longrightarrow>
            fst (snd (htmlTriple item)) = Some (toLowerCase (trim a)))"
proof -
  let ?s = "pre @ a @ CHR '':'' # b"
  from dateRegExp_here [OF assms(4-6)] obtain n where
    here: "matchHere dateRegExp (drop (length pre) ?s) = Some (n, [a])"
    by auto
  have before: "\<forall>j<length pre. matchHere dateRegExp (drop j ?s) = None"
  proof (intro allI impI)
    fix j assume j: "j < length pre"
    with assms(2) have "isLineTerminator (last pre)"
      by auto
    from dateRegExp_not_before [OF this assms(3) j] show "matchHere dateRegExp (drop j ?s) = None" .
  qed
  have "str_match dateRegExp ?s = Some (take n (drop (length pre) ?s) # [a])"
    by (rule str_match_at [OF _ before here]) simp
  with assms(1) have d: "htmlShowDate rawDate = Some (toLowerCase (trim a))"
    by (simp add: htmlShowDate_def)
  then show ?thesis
    by (simp add: htmlTriple_def)
qed

theorem html_date_before_last_colon_witness:
  "trim ''  Mon 1/1: 10:00 PM: ... '' = [] @ ''Mon 1/1: 10:00 PM'' @ CHR '':'' # '' ...''
   \<and> htmlShowDate ''  Mon 1/1: 10:00 PM: ... '' = Some ''mon 1/1: 10:00 pm''"
proof -
  have t: "trim ''  Mon 1/1: 10:00 PM: ... '' = [] @ ''Mon 1/1: 10:00 PM'' @ CHR '':'' # '' ...''"
    by (simp add: char_eval)
  have l: "toLowerCase (trim ''Mon 1/1: 10:00 PM'') = ''mon 1/1: 10:00 pm''"
    by (simp add: char_eval)
  from html_date_before_last_colon [where pre = "[]" and a = "''Mon 1/1: 10:00 PM''"
      and b = "'' ...''" and rawDate = "''  Mon 1/1: 10:00 PM: ... ''", OF t] l
  have "htmlShowDate ''  Mon 1/1: 10:00 PM: ... '' = Some ''mon 1/1: 10:00 pm''"
    by (simp add: isLineTerminator_def)
  with t show ?thesis
    by simp
qed

text \<open>The claim as it is stated fails: with more than one colon the date keeps everything
  before the last colon.\<close>

theorem html_date_first_colon_counterexample:
  "htmlShowDate ''Mon 1/1: 10:00 PM: '' = Some ''mon 1/1: 10:00 pm''
   \<and> htmlShowDate ''Mon 1/1: 10:00 PM: '' \<noteq> Some ''mon 1/1''
   \<and> htmlShowDate ''Mon 1/1: 10:00 PM: '' \<noteq> Some ''Mon 1/1''"
  by (simp add: htmlShowDate_def regexp_defs char_eval)

section \<open>Fuzzy matching\<close>

lemma levenshtein_lower: "length a - length b \<le> levenshtein a b"
proof (induction a b rule: levenshtein.induct)
  case (1 b)
  then show ?case by simp
next
  case (2 x a)
  then show ?case by simp
next
  case (3 x a y b)
  then show ?case
    by (auto simp: min_def)
qed

text \<open>What the scan of \<open>getBestMatchArchive\<close> leaves in \<open>best\<close> and \<open>bestDistance\<close>.\<close>

definition scanned :: "int \<Rightarrow> string \<Rightarrow> table \<Rightarrow> string option \<times> nat \<Rightarrow> bool" where
  "scanned now title xs acc =
     (case fst acc of
        None \<Rightarrow> snd acc = 10000
          \<and> list_all (\<lambda>(k, a). expired now a \<or> 10000 \<le> levenshtein title k) xs
      | Some best \<Rightarrow> snd acc = levenshtein title best \<and> snd acc < 10000
          \<and> list_ex (\<lambda>(k, a). k = best \<and> \<not> expired now a) xs
          \<and> list_all (\<lambda>(k, a). expired now a \<or> snd acc \<le> levenshtein title k) xs)"

lemma scanned_step:
  assumes "scanned now title xs acc"
  shows "scanned now title (xs @ [entry]) (bestStep now title acc entry)"
proof -
  obtain best bd where acc: "acc = (best, bd)" by (cases acc)
  obtain key a where entry: "entry = (key, a)" by (cases entry)
  show ?thesis
  proof (cases best)
    case None
    with assms acc entry show ?thesis
      by (auto simp: scanned_def bestStep_def Let_def list_all_iff list_ex_iff)
  next
    case (Some b)
    with assms acc entry show ?thesis
      by (fastforce simp: scanned_def bestStep_def Let_def list_all_iff list_ex_iff)
  qed
qed

lemma scanned_foldl:
  "scanned now title xs acc \<Longrightarrow> scanned now title (xs @ ys) (foldl (bestStep now title) acc ys)"
proof (induction ys arbitrary: xs acc)
  case Nil
  then show ?case by simp
next
  case (Cons y ys)
  from Cons.IH [OF scanned_step [OF Cons.prems, of y]] show ?case
    by simp
qed

lemma scanned_bestMatch: "scanned now title archives (bestMatch now archives title)"
  using scanned_foldl [of now title "[]" "(None, 10000)" archives]
  by (simp add: bestMatch_def scanned_def)

text \<open>The scan chooses a key that is not expired, at a distance below 10000 that is minimal
  among the keys that are not expired; it chooses none exactly when every key is expired or
  at a distance of 10000 or more.\<close>

lemma bestMatch_Some:
  assumes "fst (bestMatch now archives title) = Some best"
  shows "\<exists>a. (best, a) \<in> set archives \<and> \<not> expired now a"
    and "levenshtein title best < 10000"
    and "(k, a') \<in> set archives \<Longrightarrow> \<not> expired now a' \<Longrightarrow> levenshtein title best \<le> levenshtein title k"
  using scanned_bestMatch [of now title archives] assms
  by (auto simp: scanned_def list_all_iff list_ex_iff)

lemma bestMatch_None:
  "fst (bestMatch now archives title) = None \<longleftrightarrow>
     (\<forall>(k, a)\<in>set archives. expired now a \<or> 10000 \<le> levenshtein title k)"
proof
  assume "fst (bestMatch now archives title) = None"
  with scanned_bestMatch [of now title archives]
  show "\<forall>(k, a)\<in>set archives. expired now a \<or> 10000 \<le> levenshtein title k"
    by (auto simp: scanned_def list_all_iff)
next
  assume all: "\<forall>(k, a)\<in>set archives. expired now a \<or> 10000 \<le> levenshtein title k"
  show "fst (bestMatch now archives title) = None"
  proof (cases "fst (bestMatch now archives title)")
    case None
    then show ?thesis .
  next
    case (Some best)
    from bestMatch_Some(1,2) [OF Some] all show ?thesis
      by fastforce
  qed
qed

lemma getBestMatchArchive_chosen:
  assumes "distinct (map fst archives)"
    and "(k, a) \<in> set archives" and "\<not> expired now a" and "levenshtein title k < 10000"
  shows "\<exists>best b. getBestMatchArchive now archives title = Some b \<and> (best, b) \<in> set archives
      \<and> \<not> expired now b \<and> levenshtein title best \<le> levenshtein title k"
proof -
  from assms(2-4) have "fst (bestMatch now archives title) \<noteq> None"
    unfolding bestMatch_None by fastforce
  then obtain best where best: "fst (bestMatch now archives title) = Some best"
    by auto
  from bestMatch_Some(1) [OF best] obtain b where b: "(best, b) \<in> set archives" "\<not> expired now b"
    by auto
  from assms(1) b(1) have "getProperty archives best = Some b"
    by (simp add: getProperty_def)
  with best have "getBestMatchArchive now archives title = Some b"
    by (simp add: getBestMatchArchive_def)
  with b bestMatch_Some(3) [OF best assms(2,3)] show ?thesis
    by blast
qed

lemma far_query:
  "length k \<le> 4 \<Longrightarrow> \<not> levenshtein (replicate 10004 c) k < 10000"
  using levenshtein_lower [of "replicate 10004 c" k] by simp

lemma far_query_no_key: "length k \<noteq> 10004 \<Longrightarrow> replicate 10004 c \<noteq> k"
  by (metis length_replicate)

text \<open>
  Claim C2. The claim says that the fuzzy match finds a record whenever a candidate that
  is not expired exists, however large its distance. The scan starts from the distance
  10000 and accepts a key only below it: for a name of 10004 characters every key of the
  default table is at a distance of 10000 or more, no key is chosen, and the result is
  not-found (the handler sets no prompt) although both records are permanent.
\<close>

theorem far_query_not_found:
  "\<not> expired 0 liveStreamShow
   \<and> getBestMatchArchive 0 defaultShows (replicate 10004 CHR ''a'') = None
   \<and> playArchive 0 defaultShows (replicate 10004 CHR ''a'') = Undefined"
proof -
  have g: "getBestMatchArchive 0 defaultShows (replicate 10004 CHR ''a'') = None"
    by (simp add: getBestMatchArchive_def bestMatch_def bestStep_def defaultShows_def far_query
        getProperty_def)
  have l: "toLowerCase (replicate 10004 CHR ''a'') = replicate 10004 CHR ''a''"
    by (simp add: char_eval)
  have n: "getProperty defaultShows (replicate 10004 CHR ''a'') = None"
    by (simp add: getProperty_def defaultShows_def far_query_no_key)
  have "playArchive 0 defaultShows (replicate 10004 CHR ''a'') = Undefined"
    by (simp add: playArchive_def l g n far_query_no_key)
  with g show ?thesis
    by (simp add: expired_def liveStreamShow_def)
qed

text \<open>
  Claim C6. The claim says that an expired record is never returned by the fuzzy match.
  The scan never chooses an expired record (\<open>bestMatch_Some\<close>), but when it chooses no key
  the function returns \<open>archives[null]\<close>, the property named \<open>null\<close>, without any test
  of its age. A show titled \<open>Null\<close> of the HTML page, found at time 1000 and kept by the
  later refreshes, is returned 31 days later for a name that is far from every key.
\<close>

theorem expired_null_returned:
  "refreshArchiveListFromHtml (map_of [(''http://wfmu.org/n.m3u'', ''http://mp3.wfmu.org/n.mp3'')])
     [(1000, \<lparr>archiveLinks = [Some ''/n.m3u''], archiveDates = [''Monday 1/1: ''],
              showTitleLinks = [''Null'']\<rparr>)]
     = Inr [(''play'', liveStreamShow), (''wfmu'', liveStreamShow),
        (''null'', \<lparr>titleAnnounce = ''Null'', description = ''WFMU archive'',
           date = Some ''monday 1/1'', mp3Link = ''http://mp3.wfmu.org/n.mp3'',
           dateFound = Some 1000\<rparr>)]
   \<and> refreshFunction (map_of []) []
       [(''play'', liveStreamShow), (''wfmu'', liveStreamShow),
        (''null'', \<lparr>titleAnnounce = ''Null'', description = ''WFMU archive'',
           date = Some ''monday 1/1'', mp3Link = ''http://mp3.wfmu.org/n.mp3'',
           dateFound = Some 1000\<rparr>)]
     = Inr [(''play'', liveStreamShow), (''wfmu'', liveStreamShow),
        (''null'', \<lparr>titleAnnounce = ''Null'', description = ''WFMU archive'',
           date = Some ''monday 1/1'', mp3Link = ''http://mp3.wfmu.org/n.mp3'',
           dateFound = Some 1000\<rparr>)]
   \<and> expired 2678401000
     \<lparr>titleAnnounce = ''Null'', description = ''WFMU archive'', date = Some ''monday 1/1'',
      mp3Link = ''http://mp3.wfmu.org/n.mp3'', dateFound = Some 1000\<rparr>
   \<and> getBestMatchArchive 2678401000
       [(''play'', liveStreamShow), (''wfmu'', liveStreamShow),
        (''null'', \<lparr>titleAnnounce = ''Null'', description = ''WFMU archive'',
           date = Some ''monday 1/1'', mp3Link = ''http://mp3.wfmu.org/n.mp3'',
           dateFound = Some 1000\<rparr>)]
       (replicate 10004 CHR ''a'')
     = Some \<lparr>titleAnnounce = ''Null'', description = ''WFMU archive'', date = Some ''monday 1/1'',
      mp3Link = ''http://mp3.wfmu.org/n.mp3'', dateFound = Some 1000\<rparr>"
proof -
  have a: "refreshArchiveListFromHtml (map_of [(''http://wfmu.org/n.m3u'', ''http://mp3.wfmu.org/n.mp3'')])
     [(1000, \<lparr>archiveLinks = [Some ''/n.m3u''], archiveDates = [''Monday 1/1: ''],
              showTitleLinks = [''Null'']\<rparr>)]
     = Inr [(''play'', liveStreamShow), (''wfmu'', liveStreamShow),
        (''null'', \<lparr>titleAnnounce = ''Null'', description = ''WFMU archive'',
           date = Some ''monday 1/1'', mp3Link = ''http://mp3.wfmu.org/n.mp3'',
           dateFound = Some 1000\<rparr>)]"
    by (simp add: ingest_defs regexp_defs char_eval)
  have b: "refreshFunction (map_of []) []
       [(''play'', liveStreamShow), (''wfmu'', liveStreamShow),
        (''null'', \<lparr>titleAnnounce = ''Null'', description = ''WFMU archive'',
           date = Some ''monday 1/1'', mp3Link = ''http://mp3.wfmu.org/n.mp3'',
           dateFound = Some 1000\<rparr>)]
     = Inr [(''play'', liveStreamShow), (''wfmu'', liveStreamShow),
        (''null'', \<lparr>titleAnnounce = ''Null'', description = ''WFMU archive'',
           date = Some ''monday 1/1'', mp3Link = ''http://mp3.wfmu.org/n.mp3'',
           dateFound = Some 1000\<rparr>)]"
    by (simp add: ingest_defs)
  have c: "getBestMatchArchive 2678401000
       [(''play'', liveStreamShow), (''wfmu'', liveStreamShow),
        (''null'', \<lparr>titleAnnounce = ''Null'', description = ''WFMU archive'',
           date = Some ''monday 1/1'', mp3Link = ''http://mp3.wfmu.org/n.mp3'',
           dateFound = Some 1000\<rparr>)]
       (replicate 10004 CHR ''a'')
     = Some \<lparr>titleAnnounce = ''Null'', description = ''WFMU archive'', date = Some ''monday 1/1'',
      mp3Link = ''http://mp3.wfmu.org/n.mp3'', dateFound = Some 1000\<rparr>"
    by (simp add: getBestMatchArchive_def bestMatch_def bestStep_def far_query getProperty_def)
  from a b c show ?thesis
    by (simp add: expired_def archiveAgeLimitMilliseconds_def)
qed

section \<open>The merge of the refresh\<close>

text \<open>
  Claim C7. For every current table and every fresh table that the refresh of the XML feed
  returns, \<open>refreshFunction\<close> assigns to \<open>archives\<close> a table whose keys are the union of
  the keys of both; a key of the fresh table gets the fresh table's record, and a key of
  the current table alone keeps its record.
\<close>

theorem merge_union_fresh_wins:
  assumes "isTable archives"
    and "refreshArchiveListFromXml axiosGet xitems = Inr latestArchives"
  shows "\<exists>merged. refreshFunction axiosGet xitems archives = Inr merged
         \<and> fst ` set merged = fst ` set archives \<union> fst ` set latestArchives
         \<and> (\<forall>k a. getProperty latestArchives k = Some a \<longrightarrow> getProperty merged k = Some a)
         \<and> (\<forall>k. getProperty latestArchives k = None
               \<longrightarrow> getProperty merged k = getProperty archives k)
         \<and> isTable merged"
proof -
  from assms(2) have "eachApplyShow axiosGet (xmlTriples xitems) defaultShows = Inr latestArchives"
    by (simp add: refreshArchiveListFromXml_def)
  from eachApplyShow_isTable [OF this isTable_defaultShows] have l: "isTable latestArchives" .
  let ?merged = "mergedArchives archives latestArchives"
  from assms(2) have "refreshFunction axiosGet xitems archives = Inr ?merged"
    by (simp add: refreshFunction_def)
  moreover have "fst ` set ?merged = fst ` set archives \<union> fst ` set latestArchives"
    by (rule keys_mergedArchives [OF assms(1) l])
  moreover have "\<forall>k a. getProperty latestArchives k = Some a \<longrightarrow> getProperty ?merged k = Some a"
    by (simp add: getProperty_mergedArchives [OF assms(1) l])
  moreover have "\<forall>k. getProperty latestArchives k = None
      \<longrightarrow> getProperty ?merged k = getProperty archives k"
    by (simp add: getProperty_mergedArchives [OF assms(1) l])
  moreover have "isTable ?merged"
    by (rule isTable_mergedArchives)
  ultimately show ?thesis
    by blast
qed

theorem merge_union_fresh_wins_witness:
  "refreshArchiveListFromHtml
     (map_of [(''http://wfmu.org/a.m3u'', ''http://mp3.wfmu.org/a.mp3''),
              (''http://wfmu.org/b.m3u'', ''http://mp3.wfmu.org/b.mp3'')])
     [(1000, \<lparr>archiveLinks = [Some ''/a.m3u''], archiveDates = [''Monday 1/1: ''],
              showTitleLinks = [''Wake'']\<rparr>),
      (1000, \<lparr>archiveLinks = [Some ''/b.m3u''], archiveDates = [''Sunday 12/31: ''],
              showTitleLinks = [''Shrunken Planet'']\<rparr>)]
     = Inr [(''play'', liveStreamShow), (''wfmu'', liveStreamShow),
            (''wake'', \<lparr>titleAnnounce = ''Wake'', description = ''WFMU archive'',
               date = Some ''monday 1/1'', mp3Link = ''http://mp3.wfmu.org/a.mp3'',
               dateFound = Some 1000\<rparr>),
            (''shrunken planet'', \<lparr>titleAnnounce = ''Shrunken Planet'', description = ''WFMU archive'',
               date = Some ''sunday 12/31'', mp3Link = ''http://mp3.wfmu.org/b.mp3'',
               dateFound = Some 1000\<rparr>)]
   \<and> refreshArchiveListFromXml (map_of [(''http://wfmu.org/c.m3u'', ''http://mp3.wfmu.org/c.mp3'')])
       [(5000, \<lparr>guidTexts = [''http://wfmu.org/c.m3u''],
                titleTexts = [''WFMU MP3 Archive: Wake from Tuesday 1/2'']\<rparr>)]
     = Inr [(''play'', liveStreamShow), (''wfmu'', liveStreamShow),
            (''wake'', \<lparr>titleAnnounce = ''Wake'', description = ''WFMU archive'',
               date = Some ''Tuesday 1/2'', mp3Link = ''http://mp3.wfmu.org/c.mp3'',
               dateFound = Some 5000\<rparr>)]
   \<and> refreshFunction (map_of [(''http://wfmu.org/c.m3u'', ''http://mp3.wfmu.org/c.mp3'')])
       [(5000, \<lparr>guidTexts = [''http://wfmu.org/c.m3u''],
                titleTexts = [''WFMU MP3 Archive: Wake from Tuesday 1/2'']\<rparr>)]
       [(''play'', liveStreamShow), (''wfmu'', liveStreamShow),
        (''wake'', \<lparr>titleAnnounce = ''Wake'', description = ''WFMU archive'',
           date = Some ''monday 1/1'', mp3Link = ''http://mp3.wfmu.org/a.mp3'',
           dateFound = Some 1000\<rparr>),
        (''shrunken planet'', \<lparr>titleAnnounce = ''Shrunken Planet'', description = ''WFMU archive'',
           date = Some ''sunday 12/31'', mp3Link = ''http://mp3.wfmu.org/b.mp3'',
           dateFound = Some 1000\<rparr>)]
     = Inr [(''play'', liveStreamShow), (''wfmu'', liveStreamShow),
            (''wake'', \<lparr>titleAnnounce = ''Wake'', description = ''WFMU archive'',
               date = Some ''Tuesday 1/2'', mp3Link = ''http://mp3.wfmu.org/c.mp3'',
               dateFound = Some 5000\<rparr>),
            (''shrunken planet'', \<lparr>titleAnnounce = ''Shrunken Planet'', description = ''WFMU archive'',
               date = Some ''sunday 12/31'', mp3Link = ''http://mp3.wfmu.org/b.mp3'',
               dateFound = Some 1000\<rparr>)]
   \<and> getProperty
        [(''play'', liveStreamShow), (''wfmu'', liveStreamShow),
         (''wake'', \<lparr>titleAnnounce = ''Wake'', description = ''WFMU archive'',
            date = Some ''Tuesday 1/2'', mp3Link = ''http://mp3.wfmu.org/c.mp3'',
            dateFound = Some 5000\<rparr>),
         (''shrunken planet'', \<lparr>titleAnnounce = ''Shrunken Planet'', description = ''WFMU archive'',
            date = Some ''sunday 12/31'', mp3Link = ''http://mp3.wfmu.org/b.mp3'',
            dateFound = Some 1000\<rparr>)] ''wake''
     = Some \<lparr>titleAnnounce = ''Wake'', description = ''WFMU archive'',
            date = Some ''Tuesday 1/2'', mp3Link = ''http://mp3.wfmu.org/c.mp3'',
            dateFound = Some 5000\<rparr>
   \<and> getProperty
        [(''play'', liveStreamShow), (''wfmu'', liveStreamShow),
         (''wake'', \<lparr>titleAnnounce = ''Wake'', description = ''WFMU archive'',
            date = Some ''Tuesday 1/2'', mp3Link = ''http://mp3.wfmu.org/c.mp3'',
            dateFound = Some 5000\<rparr>),
         (''shrunken planet'', \<lparr>titleAnnounce = ''Shrunken Planet'', description = ''WFMU archive'',
            date = Some ''sunday 12/31'', mp3Link = ''http://mp3.wfmu.org/b.mp3'',
            dateFound = Some 1000\<rparr>)] ''shrunken planet''
     = Some \<lparr>titleAnnounce = ''Shrunken Planet'', description = ''WFMU archive'',
            date = Some ''sunday 12/31'', mp3Link = ''http://mp3.wfmu.org/b.mp3'',
            dateFound = Some 1000\<rparr>"
proof -
  let ?hget = "map_of [(''http://wfmu.org/a.m3u'', ''http://mp3.wfmu.org/a.mp3''),
              (''http://wfmu.org/b.m3u'', ''http://mp3.wfmu.org/b.mp3'')]"
  let ?hitems = "[(1000, \<lparr>archiveLinks = [Some ''/a.m3u''], archiveDates = [''Monday 1/1: ''],
              showTitleLinks = [''Wake'']\<rparr>),
      (1000, \<lparr>archiveLinks = [Some ''/b.m3u''], archiveDates = [''Sunday 12/31: ''],
              showTitleLinks = [''Shrunken Planet'']\<rparr>)]"
  let ?mon = "\<lparr>titleAnnounce = ''Wake'', description = ''WFMU archive'',
               date = Some ''monday 1/1'', mp3Link = ''http://mp3.wfmu.org/a.mp3'',
               dateFound = Some 1000\<rparr>"
  let ?sp = "\<lparr>titleAnnounce = ''Shrunken Planet'', description = ''WFMU archive'',
               date = Some ''sunday 12/31'', mp3Link = ''http://mp3.wfmu.org/b.mp3'',
               dateFound = Some 1000\<rparr>"
  let ?tue = "\<lparr>titleAnnounce = ''Wake'', description = ''WFMU archive'',
               date = Some ''Tuesday 1/2'', mp3Link = ''http://mp3.wfmu.org/c.mp3'',
               dateFound = Some 5000\<rparr>"
  let ?cur = "[(''play'', liveStreamShow), (''wfmu'', liveStreamShow), (''wake'', ?mon),
               (''shrunken planet'', ?sp)]"
  let ?get = "map_of [(''http://wfmu.org/c.m3u'', ''http://mp3.wfmu.org/c.mp3'')]"
  let ?items = "[(5000, \<lparr>guidTexts = [''http://wfmu.org/c.m3u''],
                titleTexts = [''WFMU MP3 Archive: Wake from Tuesday 1/2'']\<rparr>)]"
  let ?latest = "[(''play'', liveStreamShow), (''wfmu'', liveStreamShow), (''wake'', ?tue)]"
  let ?new = "[(''play'', liveStreamShow), (''wfmu'', liveStreamShow), (''wake'', ?tue),
               (''shrunken planet'', ?sp)]"
  have h: "refreshArchiveListFromHtml ?hget ?hitems = Inr ?cur"
    by (simp add: ingest_defs regexp_defs char_eval)
  then have "eachApplyShow ?hget (htmlTriples ?hitems) defaultShows = Inr ?cur"
    by (simp only: refreshArchiveListFromHtml_def)
  from eachApplyShow_isTable [OF this isTable_defaultShows] have c: "isTable ?cur" .
  have x: "refreshArchiveListFromXml ?get ?items = Inr ?latest"
    by (simp add: ingest_defs regexp_defs char_eval)
  from merge_union_fresh_wins [OF c x] obtain merged where
    r: "refreshFunction ?get ?items ?cur = Inr merged"
    and keys: "fst ` set merged = fst ` set ?cur \<union> fst ` set ?latest"
    and fresh: "\<forall>k a. getProperty ?latest k = Some a \<longrightarrow> getProperty merged k = Some a"
    and kept: "\<forall>k. getProperty ?latest k = None \<longrightarrow> getProperty merged k = getProperty ?cur k"
    by blast
  have e: "refreshFunction ?get ?items ?cur = Inr ?new"
    by (simp add: ingest_defs regexp_defs char_eval)
  from r e have m: "merged = ?new"
    by simp
  have "getProperty ?latest ''wake'' = Some ?tue"
    by (simp add: getProperty_def)
  with fresh have "getProperty merged ''wake'' = Some ?tue"
    by blast
  then have w1: "getProperty ?new ''wake'' = Some ?tue"
    unfolding m .
  have "getProperty ?latest ''shrunken planet'' = None"
    by (simp add: getProperty_def)
  with kept have "getProperty merged ''shrunken planet'' = getProperty ?cur ''shrunken planet''"
    by blast
  moreover have "getProperty ?cur ''shrunken planet'' = Some ?sp"
    by (simp add: getProperty_def)
  ultimately have w2: "getProperty ?new ''shrunken planet'' = Some ?sp"
    unfolding m by simp
  show ?thesis
    by (intro conjI) (rule h, rule x, rule e, rule w1, rule w2)
qed

section \<open>The titles of the XML feed\<close>

text \<open>The number of groups of a pattern: a match is an array of that many elements after
  the matched text.\<close>

fun groupCount :: "item list \<Rightarrow> nat" where
  "groupCount [] = 0"
| "groupCount (Lit l # r) = groupCount r"
| "groupCount (PlusGroup a # r) = Suc (groupCount r)"
| "groupCount (Star a # r) = groupCount r"

lemma matchHere_groupCount:
  "matchHere p s = Some (k, caps) \<Longrightarrow> length caps = groupCount p"
  and backtrack_groupCount:
  "backtrack cap lo p s n = Some (k, caps) \<Longrightarrow>
   length caps = (if cap then Suc (groupCount p) else groupCount p)"
proof (induction p s and cap lo p s n arbitrary: k caps and k caps rule: matchHere_backtrack.induct)
  case (1 s)
  then show ?case by simp
next
  case (2 l r s)
  from "2.prems" have eq: "take (length l) s = l"
    by (simp split: if_splits)
  with "2.prems" obtain m where "matchHere r (drop (length l) s) = Some (m, caps)"
    by (auto split: option.splits)
  from "2.IH" [OF eq this] show ?case by simp
next
  case (3 a r s)
  then show ?case by simp
next
  case (4 a r s)
  then show ?case by simp
next
  case (5 cap lo r s n)
  show ?case
  proof (cases "matchHere r (drop n s)")
    case None
    with 5 show ?thesis
      by (auto split: if_splits)
  next
    case (Some res)
    obtain m caps' where res: "res = (m, caps')"
      by (cases res)
    with Some "5.prems" have lo: "\<not> n < lo"
      and caps: "caps = (if cap then take n s # caps' else caps')"
      by (auto split: if_splits)
    from "5.IH"(1) [OF lo] Some res have "length caps' = groupCount r"
      by simp
    with caps show ?thesis by simp
  qed
qed

lemma str_match_length:
  assumes "str_match p s = Some parts"
  shows "length parts = Suc (groupCount p)"
proof -
  from str_match_Some [OF assms] obtain i n caps where
    "matchHere p (drop i s) = Some (n, caps)" "parts = take n (drop i s) # caps"
    by blast
  with matchHere_groupCount [of p "drop i s" n caps] show ?thesis
    by simp
qed

lemma regExp1_length: "str_match regExp1 s = Some m \<Longrightarrow> length m = 3"
  using str_match_length [of regExp1 s m] by (simp add: regExp1_def)

lemma regExp2_length: "str_match regExp2 s = Some m \<Longrightarrow> length m = 3"
  using str_match_length [of regExp2 s m] by (simp add: regExp2_def)

lemma stripCoHosts_no_clause: "str_match regExp2 (stripCoHosts showTitle) = None"
proof (induction showTitle rule: stripCoHosts.induct)
  case (1 showTitle)
  show ?case
  proof (cases "str_match regExp2 showTitle")
    case None
    then show ?thesis
      by (subst stripCoHosts.simps) simp
  next
    case (Some m)
    from regExp2_length [OF Some] have l: "2 < length m"
      by simp
    from "1.IH" [OF Some l] Some l show ?thesis
      by (subst stripCoHosts.simps) simp
  qed
qed

lemma eachApplyShow_append:
  "eachApplyShow axiosGet (xs @ ys) tbl =
     (case eachApplyShow axiosGet xs tbl of
        Inl e \<Rightarrow> Inl e
      | Inr tbl' \<Rightarrow> eachApplyShow axiosGet ys tbl')"
proof (induction axiosGet xs tbl rule: eachApplyShow.induct)
  case (1 axiosGet tbl)
  then show ?case by simp
next
  case (2 axiosGet now showTitle showDate m3uLink rest tbl)
  then show ?case
    by (cases "applyShow axiosGet now showTitle showDate m3uLink tbl") simp_all
qed

lemma eachApplyShow_skip:
  "eachApplyShow axiosGet (xs @ (now, title, None, link) # ys) tbl = eachApplyShow axiosGet (xs @ ys) tbl"
  by (simp add: eachApplyShow_append applyShow_def split: sum.splits option.splits)

text \<open>
  Claim C8 (as the program has it). For an item whose first \<open>title\<close> child is
  \<open>WFMU MP3 Archive: Wake with Co-Host from Monday 1/1\<close> the triple handed to \<open>applyShow\<close>
  has the title \<open>Wake\<close> and the date \<open>Monday 1/1\<close>; in general, when the archive-title
  pattern matches, the title is its first group with the co-host clauses stripped until
  \<open>/(.+) with (.+)/\<close> matches no more, and the date is its second group. When the pattern
  does not match, the triple has no date but its title is the raw text, and the entry is
  skipped: the refresh gives the same result as without it.
\<close>

theorem xml_title_extraction:
  assumes "titleTexts item = rawTitle # others"
  shows "(rawTitle = ''WFMU MP3 Archive: Wake with Co-Host from Monday 1/1'' \<longrightarrow>
            fst (xmlTriple item) = Some ''Wake'' \<and> fst (snd (xmlTriple item)) = Some ''Monday 1/1'')
       \<and> (\<forall>matchParts1. str_match regExp1 rawTitle = Some matchParts1 \<longrightarrow>
            fst (xmlTriple item) = Some (stripCoHosts (matchParts1 ! 1))
            \<and> fst (snd (xmlTriple item)) = Some (matchParts1 ! 2)
            \<and> str_match regExp2 (stripCoHosts (matchParts1 ! 1)) = None)
       \<and> (str_match regExp1 rawTitle = None \<longrightarrow>
            fst (xmlTriple item) = Some rawTitle \<and> fst (snd (xmlTriple item)) = None
            \<and> refreshArchiveListFromXml axiosGet (before @ (now, item) # after)
                = refreshArchiveListFromXml axiosGet (before @ after))"
proof (intro conjI impI allI)
  fix matchParts1
  assume m: "str_match regExp1 rawTitle = Some matchParts1"
  from regExp1_length [OF m] have "2 < length matchParts1"
    by simp
  with m assms show "fst (xmlTriple item) = Some (stripCoHosts (matchParts1 ! 1))"
    and "fst (snd (xmlTriple item)) = Some (matchParts1 ! 2)"
    by (simp_all add: xmlTriple_def xmlTitleDate_def)
  show "str_match regExp2 (stripCoHosts (matchParts1 ! 1)) = None"
    by (rule stripCoHosts_no_clause)
next
  assume "rawTitle = ''WFMU MP3 Archive: Wake with Co-Host from Monday 1/1''"
  then have "xmlTitleDate rawTitle = (Some ''Wake'', Some ''Monday 1/1'')"
    by (simp add: xmlTitleDate_def regexp_defs char_eval)
  with assms show "fst (xmlTriple item) = Some ''Wake''"
    and "fst (snd (xmlTriple item)) = Some ''Monday 1/1''"
    by (simp_all add: xmlTriple_def)
next
  assume n: "str_match regExp1 rawTitle = None"
  with assms have x: "xmlTriple item =
      (Some rawTitle, None, case guidTexts item of [] \<Rightarrow> None | g # _ \<Rightarrow> Some g)"
    by (simp add: xmlTriple_def xmlTitleDate_def)
  then show "fst (xmlTriple item) = Some rawTitle" and "fst (snd (xmlTriple item)) = None"
    by simp_all
  from x show "refreshArchiveListFromXml axiosGet (before @ (now, item) # after)
                = refreshArchiveListFromXml axiosGet (before @ after)"
    by (simp add: refreshArchiveListFromXml_def xmlTriples_def eachApplyShow_skip)
qed

theorem xml_title_extraction_witness:
  "str_match regExp1 ''WFMU MP3 Archive: Wake with Co-Host with Guest from Monday 1/1''
     = Some [''WFMU MP3 Archive: Wake with Co-Host with Guest from Monday 1/1'',
             ''Wake with Co-Host with Guest'', ''Monday 1/1'']
   \<and> xmlTriple \<lparr>guidTexts = [''http://wfmu.org/a.m3u''],
        titleTexts = [''WFMU MP3 Archive: Wake with Co-Host with Guest from Monday 1/1'']\<rparr>
     = (Some ''Wake'', Some ''Monday 1/1'', Some ''http://wfmu.org/a.m3u'')
   \<and> xmlTriple \<lparr>guidTexts = [''http://wfmu.org/a.m3u''],
        titleTexts = [''WFMU MP3 Archive: Wake with Co-Host from Monday 1/1'']\<rparr>
     = (Some ''Wake'', Some ''Monday 1/1'', Some ''http://wfmu.org/a.m3u'')
   \<and> str_match regExp1 ''Station identification'' = None
   \<and> refreshArchiveListFromXml (map_of [(''http://wfmu.org/a.m3u'', ''http://mp3.wfmu.org/a.mp3'')])
        [(1000, \<lparr>guidTexts = [''http://wfmu.org/s.m3u''], titleTexts = [''Station identification'']\<rparr>),
         (1000, \<lparr>guidTexts = [''http://wfmu.org/a.m3u''],
                 titleTexts = [''WFMU MP3 Archive: Wake with Co-Host from Monday 1/1'']\<rparr>)]
     = Inr [(''play'', liveStreamShow), (''wfmu'', liveStreamShow),
            (''wake'', \<lparr>titleAnnounce = ''Wake'', description = ''WFMU archive'',
               date = Some ''Monday 1/1'', mp3Link = ''http://mp3.wfmu.org/a.mp3'',
               dateFound = Some 1000\<rparr>)]"
proof -
  let ?get = "map_of [(''http://wfmu.org/a.m3u'', ''http://mp3.wfmu.org/a.mp3'')]"
  let ?two = "\<lparr>guidTexts = [''http://wfmu.org/a.m3u''],
        titleTexts = [''WFMU MP3 Archive: Wake with Co-Host with Guest from Monday 1/1'']\<rparr>"
  let ?one = "\<lparr>guidTexts = [''http://wfmu.org/a.m3u''],
        titleTexts = [''WFMU MP3 Archive: Wake with Co-Host from Monday 1/1'']\<rparr>"
  let ?none = "\<lparr>guidTexts = [''http://wfmu.org/s.m3u''], titleTexts = [''Station identification'']\<rparr>"
  have m: "str_match regExp1 ''WFMU MP3 Archive: Wake with Co-Host with Guest from Monday 1/1''
     = Some [''WFMU MP3 Archive: Wake with Co-Host with Guest from Monday 1/1'',
             ''Wake with Co-Host with Guest'', ''Monday 1/1'']"
    by (simp add: regexp_defs char_eval)
  have s: "stripCoHosts ''Wake with Co-Host with Guest'' = ''Wake''"
    by (simp add: regexp_defs char_eval)
  have n: "str_match regExp1 ''Station identification'' = None"
    by (simp add: regexp_defs)
  let ?m = "[''WFMU MP3 Archive: Wake with Co-Host with Guest from Monday 1/1'',
             ''Wake with Co-Host with Guest'', ''Monday 1/1'']"
  have i1: "?m ! 1 = ''Wake with Co-Host with Guest''" and i2: "?m ! 2 = ''Monday 1/1''"
    by simp_all
  have a2: "titleTexts ?two
      = ''WFMU MP3 Archive: Wake with Co-Host with Guest from Monday 1/1'' # []"
    by simp
  from xml_title_extraction [OF a2, THEN conjunct2, THEN conjunct1, rule_format, OF m]
  have "fst (xmlTriple ?two) = Some (stripCoHosts (?m ! 1))
      \<and> fst (snd (xmlTriple ?two)) = Some (?m ! 2)"
    by (intro conjI) (erule conjunct1, erule conjunct2 [THEN conjunct1])
  then have two: "fst (xmlTriple ?two) = Some ''Wake'' \<and> fst (snd (xmlTriple ?two)) = Some ''Monday 1/1''"
    unfolding i1 i2 s .
  have g2: "snd (snd (xmlTriple ?two)) = Some ''http://wfmu.org/a.m3u''"
    by (simp add: xmlTriple_def split: prod.splits)
  from xml_title_extraction [where item = ?one and others = "[]"
      and rawTitle = "''WFMU MP3 Archive: Wake with Co-Host from Monday 1/1''"]
  have one: "fst (xmlTriple ?one) = Some ''Wake'' \<and> fst (snd (xmlTriple ?one)) = Some ''Monday 1/1''"
    by simp
  have g1: "snd (snd (xmlTriple ?one)) = Some ''http://wfmu.org/a.m3u''"
    by (simp add: xmlTriple_def split: prod.splits)
  from xml_title_extraction [where item = ?none and others = "[]"
      and rawTitle = "''Station identification''" and axiosGet = ?get and before = "[]"
      and now = 1000 and after = "[(1000, ?one)]"] n
  have skip: "refreshArchiveListFromXml ?get [(1000, ?none), (1000, ?one)]
      = refreshArchiveListFromXml ?get [(1000, ?one)]"
    by simp
  have x1: "xmlTriple ?one = (Some ''Wake'', Some ''Monday 1/1'', Some ''http://wfmu.org/a.m3u'')"
    using one g1 by (cases "xmlTriple ?one") simp
  have x2: "xmlTriple ?two = (Some ''Wake'', Some ''Monday 1/1'', Some ''http://wfmu.org/a.m3u'')"
    using two g2 by (cases "xmlTriple ?two") simp
  have r: "refreshArchiveListFromXml ?get [(1000, ?one)]
     = Inr [(''play'', liveStreamShow), (''wfmu'', liveStreamShow),
            (''wake'', \<lparr>titleAnnounce = ''Wake'', description = ''WFMU archive'',
               date = Some ''Monday 1/1'', mp3Link = ''http://mp3.wfmu.org/a.mp3'',
               dateFound = Some 1000\<rparr>)]"
    by (simp add: refreshArchiveListFromXml_def xmlTriples_def x1 applyShow_def getTitleSynonyms_def
          setProperty_def getProperty_def arrayIndex_def isDigit_def defaultShows_def
          regexp_defs char_eval)
  from m x1 x2 n skip r show ?thesis
    by simp
qed

text \<open>The claim as it is stated fails: a raw title that the pattern does not match is not
  without a title, the variable \<open>showTitle\<close> holds the raw text.\<close>

theorem xml_title_kept_counterexample:
  "str_match regExp1 ''Station identification'' = None
   \<and> xmlTriple \<lparr>guidTexts = [''http://wfmu.org/s.m3u''], titleTexts = [''Station identification'']\<rparr>
     = (Some ''Station identification'', None, Some ''http://wfmu.org/s.m3u'')
   \<and> fst (xmlTriple \<lparr>guidTexts = [''http://wfmu.org/s.m3u''],
             titleTexts = [''Station identification'']\<rparr>) \<noteq> None"
  by (simp add: xmlTriple_def xmlTitleDate_def regexp_defs)

end
